theory Spec2Isabelle
  imports Complex_Main
begin

section \<open>Shallow embedding of CartPole.py\<close>

text \<open>
  The numpy float64 values of the source are modelled as HOL reals, so every statement below
  is about the arithmetic the source writes down, evaluated exactly; what float64 rounding
  adds to it (a sum that absorbs its small summand, an exponential that underflows) is not
  in the model. Exceptions of the
  source are values of the type \<open>error\<close>; a function that can raise returns \<open>error + 'a\<close>.
  The plotting and rendering calls (\<open>visual\<close>, \<open>display_plots\<close>) only draw, they never
  touch the values computed, and are left out.
\<close>

datatype error =
  AssertionError | AttributeError | KeyError | ValueError | UnboundLocalError
  | IndexError | TypeError | LinAlgError

text \<open>A numpy array of the source is a scalar, a vector or a matrix of reals.\<close>

datatype ndarray = Scalar real | Vec "real list" | Mat "real list list"

subsection \<open>Angle normaliser: \<open>_remap_angle\<close>\<close>

text \<open>
  First loop of \<open>_remap_angle\<close>: \<^verbatim>\<open>while theta < -np.pi: theta += 2. * np.pi\<close>.
  In exact arithmetic each pass brings \<open>theta\<close> closer to \<open>- pi\<close> by \<open>2 * pi\<close>, which is the
  termination proof below; the number of passes is \<open>\<lceil>(- pi - theta) / (2 * pi)\<rceil>\<close>. (In
  float64 a \<open>theta\<close> of magnitude about \<open>1e17\<close> or more absorbs the summand and the loop of
  the source does not end; the model does not cover such inputs.)
\<close>

function remap_up :: "real \<Rightarrow> real" where
  "remap_up theta = (if theta < - pi then remap_up (theta + 2 * pi) else theta)"
  by pat_completeness auto
termination
proof (relation "measure (\<lambda>theta. nat \<lceil>(- pi - theta) / (2 * pi)\<rceil>)")
  show "wf (measure (\<lambda>theta. nat \<lceil>(- pi - theta) / (2 * pi)\<rceil>))" by simp
next
  fix theta :: real
  assume lt: "theta < - pi"
  have eq: "(- pi - (theta + 2 * pi)) / (2 * pi) = (- pi - theta) / (2 * pi) - 1"
    by (simp add: field_simps)
  have pos: "0 < (- pi - theta) / (2 * pi)"
    using lt by simp
  then have c: "0 < \<lceil>(- pi - theta) / (2 * pi)\<rceil>"
    by (simp add: less_ceiling_iff)
  have "\<lceil>(- pi - (theta + 2 * pi)) / (2 * pi)\<rceil> = \<lceil>(- pi - theta) / (2 * pi)\<rceil> - 1"
    unfolding eq by (rule ceiling_diff_one)
  with c have "nat \<lceil>(- pi - (theta + 2 * pi)) / (2 * pi)\<rceil> < nat \<lceil>(- pi - theta) / (2 * pi)\<rceil>"
    by linarith
  then show "(theta + 2 * pi, theta) \<in> measure (\<lambda>theta. nat \<lceil>(- pi - theta) / (2 * pi)\<rceil>)"
    unfolding measure_def inv_image_def by blast
qed

text \<open>
  Second loop of \<open>_remap_angle\<close>: \<^verbatim>\<open>while theta > np.pi: theta -= 2. * np.pi\<close>, with
  the same termination argument in exact arithmetic, and the same limit in float64.
\<close>

function remap_down :: "real \<Rightarrow> real" where
  "remap_down theta = (if theta > pi then remap_down (theta - 2 * pi) else theta)"
  by pat_completeness auto
termination
proof (relation "measure (\<lambda>theta. nat \<lceil>(theta - pi) / (2 * pi)\<rceil>)")
  show "wf (measure (\<lambda>theta. nat \<lceil>(theta - pi) / (2 * pi)\<rceil>))" by simp
next
  fix theta :: real
  assume gt: "pi < theta"
  have eq: "(theta - 2 * pi - pi) / (2 * pi) = (theta - pi) / (2 * pi) - 1"
    by (simp add: field_simps)
  have pos: "0 < (theta - pi) / (2 * pi)"
    using gt by simp
  then have c: "0 < \<lceil>(theta - pi) / (2 * pi)\<rceil>"
    by (simp add: less_ceiling_iff)
  have "\<lceil>(theta - 2 * pi - pi) / (2 * pi)\<rceil> = \<lceil>(theta - pi) / (2 * pi)\<rceil> - 1"
    unfolding eq by (rule ceiling_diff_one)
  with c have "nat \<lceil>(theta - 2 * pi - pi) / (2 * pi)\<rceil> < nat \<lceil>(theta - pi) / (2 * pi)\<rceil>"
    by linarith
  then show "(theta - 2 * pi, theta) \<in> measure (\<lambda>theta. nat \<lceil>(theta - pi) / (2 * pi)\<rceil>)"
    unfolding measure_def inv_image_def by blast
qed

declare remap_up.simps [simp del]
declare remap_down.simps [simp del]

text \<open>\<open>_remap_angle\<close> (and its wrapper \<open>remap_angle\<close>): the first loop, then the second.\<close>

definition remap_angle :: "real \<Rightarrow> real" where
  "remap_angle theta = remap_down (remap_up theta)"

subsection \<open>Elementwise division\<close>

text \<open>
  numpy's elementwise division of two vectors broadcasts a vector of length one and
  raises \<open>ValueError\<close> when the lengths differ otherwise.
\<close>

definition np_divide :: "real list \<Rightarrow> real list \<Rightarrow> error + real list" where
  "np_divide xs ys =
     (if length xs = length ys then Inr (map2 (/) xs ys)
      else if length ys = 1 then Inr (map (\<lambda>x. x / hd ys) xs)
      else if length xs = 1 then Inr (map (\<lambda>y. hd xs / y) ys)
      else Inl ValueError)"

subsection \<open>Physics engine: class \<open>CartPole\<close>\<close>

record cartpole =
  cart_location :: real
  cart_velocity :: real
  pole_angle :: real
  pole_velocity :: real
  pole_length :: real
  pole_mass :: real
  mu_c :: real
  mu_p :: real
  sim_steps :: nat
  delta_time :: real
  max_force :: real
  gravity :: real
  cart_mass :: real

text \<open>\<open>CartPole.__init__\<close>: the pole hangs down, the constants have their defaults.\<close>

definition CartPole_init :: cartpole where
  "CartPole_init =
     \<lparr> cart_location = 0.0, cart_velocity = 0.0, pole_angle = pi, pole_velocity = 0.0,
       pole_length = 0.5, pole_mass = 0.5, mu_c = 0.001, mu_p = 0.001,
       sim_steps = 50, delta_time = 0.05, max_force = 20, gravity = 9.8,
       cart_mass = 0.5 \<rparr>"

definition setState :: "cartpole \<Rightarrow> real \<times> real \<times> real \<times> real \<Rightarrow> cartpole" where
  "setState cp st =
     (case st of (x, v, th, w) \<Rightarrow>
        cp\<lparr>cart_location := x, cart_velocity := v, pole_angle := th, pole_velocity := w\<rparr>)"

definition getState :: "cartpole \<Rightarrow> real list" where
  "getState cp = [cart_location cp, cart_velocity cp, pole_angle cp, pole_velocity cp]"

text \<open>One pass through the body of the integration loop of \<open>performAction\<close>.\<close>

definition euler_step :: "real \<Rightarrow> cartpole \<Rightarrow> cartpole" where
  "euler_step force cp =
     (let s = sin (pole_angle cp);
          c = cos (pole_angle cp);
          m = 4.0 * (cart_mass cp + pole_mass cp) - 3.0 * pole_mass cp * c\<^sup>2;
          cart_accel =
            (2.0 * (pole_length cp * pole_mass cp * (pole_velocity cp)\<^sup>2 * s + force
                    - mu_c cp * cart_velocity cp)
             - 3.0 * pole_mass cp * gravity cp * c * s) / m;
          pole_accel =
            (- 3.0 * c * (pole_length cp / 2.0 * pole_mass cp * (pole_velocity cp)\<^sup>2 * s + force
                          - mu_c cp * cart_velocity cp)
             + 6.0 * (cart_mass cp + pole_mass cp) / (pole_mass cp * pole_length cp)
               * (pole_mass cp * gravity cp * s
                  - 2.0 / pole_length cp * mu_p cp * pole_velocity cp)) / m;
          dt = delta_time cp / real (sim_steps cp);
          cv = cart_velocity cp + dt * cart_accel;
          pv = pole_velocity cp + dt * pole_accel;
          pa = pole_angle cp + dt * pv;
          cl = cart_location cp + dt * cv
      in cp\<lparr>cart_velocity := cv, pole_velocity := pv, pole_angle := pa, cart_location := cl\<rparr>)"

text \<open>The loop \<^verbatim>\<open>for step in range(self.sim_steps)\<close>.\<close>

fun integrate :: "nat \<Rightarrow> real \<Rightarrow> cartpole \<Rightarrow> cartpole" where
  "integrate 0 force cp = cp"
| "integrate (Suc n) force cp = integrate n force (euler_step force cp)"

definition performAction :: "real \<Rightarrow> cartpole \<Rightarrow> cartpole" where
  "performAction action cp =
     (let force = max_force cp * tanh (action / max_force cp)
      in integrate (sim_steps cp) force cp)"

text \<open>The member function \<open>CartPole.remap_angle\<close>.\<close>

definition remap_angle_cp :: "cartpole \<Rightarrow> cartpole" where
  "remap_angle_cp cp = cp\<lparr>pole_angle := remap_angle (pole_angle cp)\<rparr>"

subsection \<open>Rollout: \<open>move_cart\<close>\<close>

text \<open>
  The keyword arguments read by \<open>move_cart\<close>: \<open>noise_function\<close> and \<open>var\<close>, each present or
  not. The noise function of the source draws random numbers; here it is any function of
  the row and the variance.
\<close>

record kwargs =
  noise_function :: "(real list \<Rightarrow> real \<Rightarrow> real list) option"
  var :: "real option"

definition no_kwargs :: kwargs where
  "no_kwargs = \<lparr> noise_function = None, var = None \<rparr>"

text \<open>\<^verbatim>\<open>kwargs['noise_function'](x, var=kwargs['var'])\<close>: a missing key raises.\<close>

definition apply_noise :: "kwargs \<Rightarrow> real list \<Rightarrow> error + real list" where
  "apply_noise kw x =
     (case noise_function kw of
        None \<Rightarrow> Inl KeyError
      | Some f \<Rightarrow> (case var kw of None \<Rightarrow> Inl KeyError | Some v \<Rightarrow> Inr (f x v)))"

text \<open>Unpacking a sequence into five names raises \<open>ValueError\<close> unless it has five items.\<close>

fun unpack5 :: "real list \<Rightarrow> error + (real \<times> real \<times> real \<times> real \<times> real)" where
  "unpack5 [a, b, c, d, e] = Inr (a, b, c, d, e)"
| "unpack5 _ = Inl ValueError"

text \<open>
  The loop \<^verbatim>\<open>for _ in range(steps)\<close> of \<open>move_cart\<close>. The history \<open>x_history\<close> is unbound
  (\<open>None\<close>) until the first pass, whose \<open>except\<close> branch binds it to the two rows
  \<open>initial_x\<close> and the new row; later passes append a row. The last argument counts the
  calls of \<open>performAction\<close> made so far, and is returned with the result.
\<close>

fun rollout_loop ::
  "nat \<Rightarrow> real list \<Rightarrow> bool \<Rightarrow> bool \<Rightarrow> kwargs \<Rightarrow> cartpole \<Rightarrow> real \<Rightarrow> real list list option \<Rightarrow> nat
   \<Rightarrow> nat \<times> (error + real list list option)" where
  "rollout_loop 0 initial_x remap noisy kw cp action hist n = (n, Inr hist)"
| "rollout_loop (Suc k) initial_x remap noisy kw cp action hist n =
     (let cp1 = performAction action cp;
          cp2 = (if remap then remap_angle_cp cp1 else cp1);
          row = [cart_location cp2, cart_velocity cp2, pole_angle cp2, pole_velocity cp2, action]
      in case (if noisy then (case apply_noise kw row of Inl e \<Rightarrow> Inl e | Inr r \<Rightarrow> unpack5 r)
               else unpack5 row) of
           Inl e \<Rightarrow> (Suc n, Inl e)
         | Inr (x, v, th, w, action') \<Rightarrow>
             (let cp3 = setState cp2 (x, v, th, w);
                  row' = [x, v, th, w, action'];
                  hist' = (case hist of None \<Rightarrow> [initial_x, row'] | Some h \<Rightarrow> h @ [row'])
              in rollout_loop k initial_x remap noisy kw cp3 action' (Some hist') (Suc n)))"

text \<open>
  \<open>move_cart(initial_x, steps, remap_angle, noisy_dynamics, **kwargs)\<close>. The result is the
  number of \<open>performAction\<close> calls made, and what the call returns or raises: the assertion
  on \<open>steps\<close> comes first, then the check for the noise function, then the unpacking of the
  (possibly noised) copy of \<open>initial_x\<close>, then the loop, and at the end the read of
  \<open>x_history\<close>, which is unbound when the loop body never ran.
\<close>

definition move_cart ::
  "real list \<Rightarrow> int \<Rightarrow> bool \<Rightarrow> bool \<Rightarrow> kwargs \<Rightarrow> nat \<times> (error + ndarray)" where
  "move_cart initial_x steps remap noisy kw =
     (if steps = 4 then (0, Inl AssertionError)
      else if noisy \<and> noise_function kw = None then (0, Inl AttributeError)
      else
        case (if noisy then (case apply_noise kw initial_x of Inl e \<Rightarrow> Inl e | Inr r \<Rightarrow> unpack5 r)
              else unpack5 initial_x) of
          Inl e \<Rightarrow> (0, Inl e)
        | Inr (x, v, th, w, action) \<Rightarrow>
            (case rollout_loop (nat steps) initial_x remap noisy kw
                    (setState CartPole_init (x, v, th, w)) action None 0 of
               (n, Inl e) \<Rightarrow> (n, Inl e)
             | (n, Inr None) \<Rightarrow> (n, Inl UnboundLocalError)
             | (n, Inr (Some h)) \<Rightarrow>
                 (n, Inr (if length h \<noteq> 5 then Vec (last h) else Mat h))))"

subsection \<open>Kernel regression: \<open>kernel\<close>\<close>

text \<open>
  The list comprehension in the \<open>try\<close> block of \<open>kernel\<close>, for two numpy vectors: the
  squared difference for each index below 5, with the sine of half the difference at
  index 2. Reading an index out of range raises inside the \<open>try\<close>, the \<open>except\<close> branch
  only prints, and \<open>squared_numerator\<close> stays unbound (\<open>None\<close>).
\<close>

definition squared_numerator :: "real list \<Rightarrow> real list \<Rightarrow> real list option" where
  "squared_numerator X X_dash =
     (if 5 \<le> length X \<and> 5 \<le> length X_dash
      then Some (map (\<lambda>i. if i \<noteq> 2 then (X ! i - X_dash ! i)\<^sup>2
                             else (sin ((X ! i - X_dash ! i) / 2))\<^sup>2) [0..<5])
      else None)"

text \<open>
  \<open>kernel(X, X_dash, sigma)\<close>: the read of an unbound \<open>squared_numerator\<close> raises; the
  division by \<open>2 * np.square(sigma)\<close> broadcasts as \<open>np_divide\<close> does.
\<close>

definition kernel :: "real list \<Rightarrow> real list \<Rightarrow> real list \<Rightarrow> error + real" where
  "kernel X X_dash sigma =
     (case squared_numerator X X_dash of
        None \<Rightarrow> Inl UnboundLocalError
      | Some sq \<Rightarrow>
          (case np_divide sq (map (\<lambda>s. 2 * s) (map (\<lambda>s. s\<^sup>2) sigma)) of
             Inl e \<Rightarrow> Inl e
           | Inr q \<Rightarrow> Inr (exp (- sum_list q))))"


subsection \<open>Arrays in memory and \<open>predict\<close>\<close>

text \<open>
  numpy arrays are mutable objects that the caller and \<open>predict\<close> share by reference. The
  memory holds the float vectors, the float matrices and the object matrices (rows of
  floats or \<open>None\<close>) allocated so far, each kind at the addresses below its counter. A
  matrix is the list of its rows. Creating an array takes the next free address; there is
  no operation that writes to an address in use, because \<open>kernel\<close> and \<open>predict\<close> contain
  no assignment to an element or a slice, no augmented assignment on an array and no
  \<open>out=\<close> argument.
\<close>

record heap =
  vecs :: "nat \<Rightarrow> real list"
  vtop :: nat
  mats :: "nat \<Rightarrow> real list list"
  mtop :: nat
  objs :: "nat \<Rightarrow> real option list list"
  otop :: nat

definition new_vec :: "real list \<Rightarrow> heap \<Rightarrow> nat \<times> heap" where
  "new_vec v h = (vtop h, h\<lparr>vecs := (vecs h)(vtop h := v), vtop := Suc (vtop h)\<rparr>)"

definition new_mat :: "real list list \<Rightarrow> heap \<Rightarrow> nat \<times> heap" where
  "new_mat m h = (mtop h, h\<lparr>mats := (mats h)(mtop h := m), mtop := Suc (mtop h)\<rparr>)"

definition new_obj :: "real option list list \<Rightarrow> heap \<Rightarrow> nat \<times> heap" where
  "new_obj m h = (otop h, h\<lparr>objs := (objs h)(otop h := m), otop := Suc (otop h)\<rparr>)"

text \<open>
  The values a local variable of \<open>predict\<close> holds: the list \<open>[None, None]\<close>, a float, or a
  reference to an array. The query \<open>x_test\<close> is a vector, a matrix, or (after
  \<^verbatim>\<open>x_test = x_test[0]\<close>) the view of a row of a matrix.
\<close>

datatype pyval = NoneList | Float real | VecRef nat | MatRef nat | ObjRef nat

datatype xref = XVec nat | XMat nat | XRow nat nat

definition x_size :: "heap \<Rightarrow> xref \<Rightarrow> nat" where
  "x_size h x =
     (case x of
        XVec a \<Rightarrow> length (vecs h a)
      | XMat a \<Rightarrow> sum_list (map length (mats h a))
      | XRow a i \<Rightarrow> length (mats h a ! i))"

text \<open>
  \<open>kernel\<close> on arrays in memory: \<open>X\<close> and \<open>X_dash\<close> are the rows read by the caller, \<open>sigma\<close>
  is a reference. \<open>np.array([...])\<close>, \<open>np.square(sigma)\<close>, the product with 2 and
  \<open>np.divide\<close> each create an array; \<open>np.sum\<close> and \<open>np.exp\<close> give floats.
\<close>

definition kernel_st :: "real list \<Rightarrow> real list \<Rightarrow> nat \<Rightarrow> heap \<Rightarrow> (error + real) \<times> heap" where
  "kernel_st X X_dash sigma h =
     (case squared_numerator X X_dash of
        None \<Rightarrow> (Inl UnboundLocalError, h)
      | Some sq \<Rightarrow>
          (let (a, h1) = new_vec sq h;
               (b, h2) = new_vec (map (\<lambda>s. s\<^sup>2) (vecs h1 sigma)) h1;
               (c, h3) = new_vec (map (\<lambda>s. 2 * s) (vecs h2 b)) h2
           in case np_divide (vecs h3 a) (vecs h3 c) of
                Inl e \<Rightarrow> (Inl e, h3)
              | Inr q \<Rightarrow>
                  (let (d, h4) = new_vec q h3
                   in (Inr (exp (- sum_list (vecs h4 d))), h4))))"

text \<open>
  The list comprehension \<^verbatim>\<open>[kernel(X_i, x_test_, sigma=sigma) for x_test_ in x_test]\<close>
  over the rows of a matrix query.
\<close>

fun kernel_list :: "real list \<Rightarrow> real list list \<Rightarrow> nat \<Rightarrow> heap \<Rightarrow> (error + real list) \<times> heap" where
  "kernel_list X_i [] sigma h = (Inr [], h)"
| "kernel_list X_i (r # rs) sigma h =
     (case kernel_st X_i r sigma h of
        (Inl e, h1) \<Rightarrow> (Inl e, h1)
      | (Inr k, h1) \<Rightarrow>
          (case kernel_list X_i rs sigma h1 of
             (Inl e, h2) \<Rightarrow> (Inl e, h2)
           | (Inr ks, h2) \<Rightarrow> (Inr (k # ks), h2)))"

text \<open>The number of columns of a matrix given as the list of its rows.\<close>

definition ncols :: "'a list list \<Rightarrow> nat" where
  "ncols A = (if A = [] then 0 else length (hd A))"

text \<open>
  \<open>np.vstack((KnM_test, KnM_test_row))\<close>: both arguments are made two-dimensional and
  stacked when their row lengths agree; \<open>None\<close> stands for the \<open>ValueError\<close> raised
  otherwise. The list \<open>[None, None]\<close> is a row of length 2 of an object array.
\<close>

definition vstack :: "pyval \<Rightarrow> pyval \<Rightarrow> heap \<Rightarrow> pyval option \<times> heap" where
  "vstack K row h =
     (let as_rows = (\<lambda>v. case v of
              Float a \<Rightarrow> Some [[a]]
            | VecRef a \<Rightarrow> Some [vecs h a]
            | MatRef a \<Rightarrow> Some (mats h a)
            | _ \<Rightarrow> None)
      in case as_rows row of
           None \<Rightarrow> (None, h)
         | Some r \<Rightarrow>
             (case K of
                NoneList \<Rightarrow>
                  (if ncols r = 2
                   then (let (a, h1) = new_obj ([None, None] # map (map Some) r) h in (Some (ObjRef a), h1))
                   else (None, h))
              | ObjRef b \<Rightarrow>
                  (if ncols r = 2
                   then (let (a, h1) = new_obj (objs h b @ map (map Some) r) h in (Some (ObjRef a), h1))
                   else (None, h))
              | _ \<Rightarrow>
                  (case as_rows K of
                     None \<Rightarrow> (None, h)
                   | Some k \<Rightarrow>
                       (if ncols k = ncols r
                        then (let (a, h1) = new_mat (k @ r) h in (Some (MatRef a), h1))
                        else (None, h)))))"

text \<open>
  \<open>np.matmul(KnM_test.T, alpha)\<close>. A list has no attribute \<open>T\<close>; a float has no
  dimension to multiply along; a vector is its own transpose and multiplies the rows of
  \<open>alpha\<close>; a matrix is transposed first. An object array holding \<open>None\<close> cannot be
  multiplied with floats.
\<close>

definition matmul_T :: "pyval \<Rightarrow> nat \<Rightarrow> heap \<Rightarrow> (error + pyval) \<times> heap" where
  "matmul_T K alpha h =
     (let A = mats h alpha in
      case K of
        NoneList \<Rightarrow> (Inl AttributeError, h)
      | Float k \<Rightarrow> (Inl ValueError, h)
      | VecRef a \<Rightarrow>
          (let v = vecs h a in
           if length v = length A
           then (let (p, h1) = new_vec (map (\<lambda>j. \<Sum>t<length v. v ! t * A ! t ! j) [0..<ncols A]) h
                 in (Inr (VecRef p), h1))
           else (Inl ValueError, h))
      | MatRef a \<Rightarrow>
          (let M = mats h a in
           if length M = length A
           then (let (p, h1) = new_mat (map (\<lambda>i. map (\<lambda>j. \<Sum>t<length M. M ! t ! i * A ! t ! j)
                                                    [0..<ncols A]) [0..<ncols M]) h
                 in (Inr (MatRef p), h1))
           else (Inl ValueError, h))
      | ObjRef a \<Rightarrow>
          (if length (objs h a) = length A then (Inl TypeError, h) else (Inl ValueError, h)))"

text \<open>
  The vector that \<open>kernel\<close> indexes for a query of one dimension (\<open>x_test.ndim == 1\<close>: a
  vector or the view of a row); \<open>predict\<close> never passes a matrix query to \<open>kernel\<close> whole.
\<close>

definition x_vector :: "heap \<Rightarrow> xref \<Rightarrow> real list" where
  "x_vector h x =
     (case x of XVec a \<Rightarrow> vecs h a | XRow a i \<Rightarrow> mats h a ! i | XMat a \<Rightarrow> hd (mats h a))"

text \<open>
  The branches at the head of the loop body of \<open>predict\<close>, for the basis row \<open>X_i\<close>: they
  give the query \<open>x_test\<close> (rebound to its first row by \<^verbatim>\<open>x_test = x_test[0]\<close>) and
  \<open>KnM_test_row\<close>, which stays as it was (unbound, \<open>None\<close>, in the first pass) when
  neither branch is taken. The query has two dimensions exactly when it is a matrix.
\<close>

definition predict_row ::
  "real list \<Rightarrow> xref \<Rightarrow> pyval option \<Rightarrow> nat \<Rightarrow> heap \<Rightarrow> (error + xref \<times> pyval option) \<times> heap" where
  "predict_row X_i x row sigma h =
     (if x_size h x > 4 then
        (if x_size h x mod 5 \<noteq> 0 then (Inl AssertionError, h)
         else
           (case x of
              XMat a \<Rightarrow>
                (case kernel_list X_i (mats h a) sigma h of
                   (Inl e, h1) \<Rightarrow> (Inl e, h1)
                 | (Inr ks, h1) \<Rightarrow> (let (p, h2) = new_vec ks h1 in (Inr (x, Some (VecRef p)), h2)))
            | _ \<Rightarrow>
                (case kernel_st X_i (x_vector h x) sigma h of
                   (Inl e, h1) \<Rightarrow> (Inl e, h1)
                 | (Inr k, h1) \<Rightarrow> (Inr (x, Some (Float k)), h1))))
      else if x_size h x = 4 then
        (let x' = (case x of XMat a \<Rightarrow> XRow a 0 | _ \<Rightarrow> x)
         in case kernel_st X_i (x_vector h x') sigma h of
              (Inl e, h1) \<Rightarrow> (Inl e, h1)
            | (Inr k, h1) \<Rightarrow> (Inr (x', Some (Float k)), h1))
      else (Inr (x, row), h))"

text \<open>
  The loop \<^verbatim>\<open>for X_i in X_i_vals\<close> of \<open>predict\<close>, over the rows still to visit, with
  the \<open>try\<close> block at the end of its body: reading \<open>KnM_test_row\<close> unbound raises in the
  \<open>try\<close> block and again in the \<open>except\<close> branch; a failed \<open>vstack\<close> makes \<open>KnM_test\<close>
  the row.
\<close>

fun predict_loop ::
  "real list list \<Rightarrow> xref \<Rightarrow> pyval \<Rightarrow> pyval option \<Rightarrow> nat \<Rightarrow> heap \<Rightarrow> (error + pyval) \<times> heap" where
  "predict_loop [] x K row sigma h = (Inr K, h)"
| "predict_loop (X_i # rest) x K row sigma h =
     (case predict_row X_i x row sigma h of
        (Inl e, h1) \<Rightarrow> (Inl e, h1)
      | (Inr (x1, None), h1) \<Rightarrow> (Inl UnboundLocalError, h1)
      | (Inr (x1, Some r), h1) \<Rightarrow>
          (case vstack K r h1 of
             (Some K', h2) \<Rightarrow> predict_loop rest x1 K' (Some r) sigma h2
           | (None, h2) \<Rightarrow> predict_loop rest x1 r (Some r) sigma h2))"

text \<open>
  \<open>predict(x_test, alpha, X_i_vals, sigma)\<close> on references into the memory: it returns
  the reference to the array of predictions, or the error raised, and the memory after
  the call.
\<close>

definition predict :: "xref \<Rightarrow> nat \<Rightarrow> nat \<Rightarrow> nat \<Rightarrow> heap \<Rightarrow> (error + pyval) \<times> heap" where
  "predict x_test alpha X_i_vals sigma h =
     (case predict_loop (mats h X_i_vals) x_test NoneList None sigma h of
        (Inl e, h1) \<Rightarrow> (Inl e, h1)
      | (Inr K, h1) \<Rightarrow> matmul_T K alpha h1)"


subsection \<open>Kernel regression: \<open>generate_K\<close> and \<open>train_alpha\<close>\<close>

text \<open>
  Fancy indexing \<open>X[M]\<close> of the rows of a matrix by a list of indices: an index out of
  range raises \<open>IndexError\<close>. The indices drawn by \<open>np.random.randint(0, ...)\<close> are not
  negative.
\<close>

definition take_rows :: "real list list \<Rightarrow> nat list \<Rightarrow> error + real list list" where
  "take_rows X M = (if \<forall>m\<in>set M. m < length X then Inr (map (\<lambda>m. X ! m) M) else Inl IndexError)"

text \<open>
  The list comprehension \<^verbatim>\<open>[kernel(x_location, RBF_x, sigma) for RBF_x in X[M]]\<close>: the
  first call of \<open>kernel\<close> that raises ends it.
\<close>

fun kernel_row :: "real list \<Rightarrow> real list list \<Rightarrow> real list \<Rightarrow> error + real list" where
  "kernel_row x [] sigma = Inr []"
| "kernel_row x (b # bs) sigma =
     (case kernel x b sigma of
        Inl e \<Rightarrow> Inl e
      | Inr k \<Rightarrow> (case kernel_row x bs sigma of Inl e \<Rightarrow> Inl e | Inr ks \<Rightarrow> Inr (k # ks)))"

text \<open>
  The loop \<^verbatim>\<open>for x_location in X\<close> of \<open>generate_K\<close>, over the rows still to visit.
  \<open>KnM\<close> is given by its rows: none while it is unbound, one when it is the vector
  \<open>K_row\<close> that the \<open>except\<close> branch assigned, two or more when it is the matrix that
  \<open>np.vstack\<close> built. \<open>np.vstack\<close> raises when the row lengths differ, and the \<open>except\<close>
  branch then makes \<open>KnM\<close> the new row.
\<close>

fun generate_K_loop ::
  "real list list \<Rightarrow> real list list \<Rightarrow> nat list \<Rightarrow> real list \<Rightarrow> real list list
   \<Rightarrow> error + real list list" where
  "generate_K_loop [] X M sigma KnM = Inr KnM"
| "generate_K_loop (x_location # rest) X M sigma KnM =
     (case take_rows X M of
        Inl e \<Rightarrow> Inl e
      | Inr B \<Rightarrow>
          (case kernel_row x_location B sigma of
             Inl e \<Rightarrow> Inl e
           | Inr K_row \<Rightarrow>
               generate_K_loop rest X M sigma
                 (if KnM \<noteq> [] \<and> ncols KnM = length K_row then KnM @ [K_row] else [K_row])))"

text \<open>
  \<open>generate_K(X, M, sigma)\<close>: the read of \<open>KnM\<close> at the \<open>return\<close> raises when the loop body
  never ran; one row gives a vector, more rows a matrix.
\<close>

definition generate_K :: "real list list \<Rightarrow> nat list \<Rightarrow> real list \<Rightarrow> error + ndarray" where
  "generate_K X M sigma =
     (case generate_K_loop X X M sigma [] of
        Inl e \<Rightarrow> Inl e
      | Inr [] \<Rightarrow> Inl UnboundLocalError
      | Inr [v] \<Rightarrow> Inr (Vec v)
      | Inr K \<Rightarrow> Inr (Mat K))"

text \<open>The attribute \<open>.T\<close>: a vector is its own transpose.\<close>

definition np_T :: "ndarray \<Rightarrow> ndarray" where
  "np_T A =
     (case A of
        Mat m \<Rightarrow> Mat (map (\<lambda>j. map (\<lambda>r. r ! j) m) [0..<ncols m])
      | _ \<Rightarrow> A)"

text \<open>
  \<open>np.matmul\<close>: a vector is a row on the left and a column on the right; a scalar is
  refused, and so are inner dimensions that differ.
\<close>

definition np_matmul :: "ndarray \<Rightarrow> ndarray \<Rightarrow> error + ndarray" where
  "np_matmul A B =
     (case (A, B) of
        (Vec u, Vec v) \<Rightarrow>
          (if length u = length v then Inr (Scalar (\<Sum>t<length u. u ! t * v ! t)) else Inl ValueError)
      | (Vec u, Mat b) \<Rightarrow>
          (if length u = length b
           then Inr (Vec (map (\<lambda>j. \<Sum>t<length b. u ! t * b ! t ! j) [0..<ncols b]))
           else Inl ValueError)
      | (Mat a, Vec v) \<Rightarrow>
          (if ncols a = length v
           then Inr (Vec (map (\<lambda>r. \<Sum>t<length v. r ! t * v ! t) a))
           else Inl ValueError)
      | (Mat a, Mat b) \<Rightarrow>
          (if ncols a = length b
           then Inr (Mat (map (\<lambda>r. map (\<lambda>j. \<Sum>t<length b. r ! t * b ! t ! j) [0..<ncols b]) a))
           else Inl ValueError)
      | _ \<Rightarrow> Inl ValueError)"

text \<open>The product of a float and an array.\<close>

definition np_scale :: "real \<Rightarrow> ndarray \<Rightarrow> ndarray" where
  "np_scale c A =
     (case A of
        Scalar a \<Rightarrow> Scalar (c * a)
      | Vec v \<Rightarrow> Vec (map (\<lambda>x. c * x) v)
      | Mat m \<Rightarrow> Mat (map (map (\<lambda>x. c * x)) m))"

text \<open>
  The sum of two arrays, with numpy's broadcasting: along each axis the lengths agree or
  one of them is 1; a vector is a matrix of one row; a scalar is added to every element.
\<close>

definition add_rows :: "real list \<Rightarrow> real list \<Rightarrow> error + real list" where
  "add_rows u v =
     (if length u = length v then Inr (map2 (+) u v)
      else if length v = 1 then Inr (map (\<lambda>x. x + hd v) u)
      else if length u = 1 then Inr (map (\<lambda>y. hd u + y) v)
      else Inl ValueError)"

fun collect :: "(error + 'a) list \<Rightarrow> error + 'a list" where
  "collect [] = Inr []"
| "collect (Inl e # rs) = Inl e"
| "collect (Inr x # rs) = (case collect rs of Inl e \<Rightarrow> Inl e | Inr xs \<Rightarrow> Inr (x # xs))"

definition add_mats :: "real list list \<Rightarrow> real list list \<Rightarrow> error + real list list" where
  "add_mats a b =
     (if length a = length b then collect (map2 add_rows a b)
      else if length b = 1 then collect (map (\<lambda>r. add_rows r (hd b)) a)
      else if length a = 1 then collect (map (\<lambda>r. add_rows (hd a) r) b)
      else Inl ValueError)"

definition np_add :: "ndarray \<Rightarrow> ndarray \<Rightarrow> error + ndarray" where
  "np_add A B =
     (case (A, B) of
        (Scalar a, Scalar b) \<Rightarrow> Inr (Scalar (a + b))
      | (Scalar a, Vec v) \<Rightarrow> Inr (Vec (map (\<lambda>x. a + x) v))
      | (Scalar a, Mat m) \<Rightarrow> Inr (Mat (map (map (\<lambda>x. a + x)) m))
      | (Vec u, Scalar b) \<Rightarrow> Inr (Vec (map (\<lambda>x. x + b) u))
      | (Mat m, Scalar b) \<Rightarrow> Inr (Mat (map (map (\<lambda>x. x + b)) m))
      | (Vec u, Vec v) \<Rightarrow> (case add_rows u v of Inl e \<Rightarrow> Inl e | Inr w \<Rightarrow> Inr (Vec w))
      | (Vec u, Mat m) \<Rightarrow> (case add_mats [u] m of Inl e \<Rightarrow> Inl e | Inr w \<Rightarrow> Inr (Mat w))
      | (Mat m, Vec v) \<Rightarrow> (case add_mats m [v] of Inl e \<Rightarrow> Inl e | Inr w \<Rightarrow> Inr (Mat w))
      | (Mat a, Mat b) \<Rightarrow> (case add_mats a b of Inl e \<Rightarrow> Inl e | Inr w \<Rightarrow> Inr (Mat w)))"

text \<open>
  \<open>np.linalg.lstsq(a, b)[0]\<close>. The solver is numpy's and is a parameter here, applied to
  a matrix and a right-hand side of as many rows; numpy raises \<open>LinAlgError\<close> when \<open>a\<close>
  is not two-dimensional or the row counts differ. A vector as right-hand side is solved
  as one column.
\<close>

definition lstsq ::
  "(real list list \<Rightarrow> real list list \<Rightarrow> real list list) \<Rightarrow> ndarray \<Rightarrow> ndarray \<Rightarrow> error + ndarray" where
  "lstsq solver a b =
     (case a of
        Mat A \<Rightarrow>
          (case b of
             Mat B \<Rightarrow> (if length A = length B then Inr (Mat (solver A B)) else Inl LinAlgError)
           | Vec v \<Rightarrow>
               (if length A = length v then Inr (Vec (map hd (solver A (map (\<lambda>x. [x]) v))))
                else Inl LinAlgError)
           | Scalar s \<Rightarrow> Inl LinAlgError)
      | _ \<Rightarrow> Inl LinAlgError)"

text \<open>
  \<open>train_alpha\<close>, for the basis indices \<open>M_vals\<close> that \<open>np.random.randint\<close> drew: the
  arguments \<open>no_RBC\<close>, \<open>n\<close> and \<open>train_proportion\<close> only steer the draw. The two arguments
  of \<open>lstsq\<close> are evaluated from left to right before the call.
\<close>

definition train_alpha ::
  "(real list list \<Rightarrow> real list list \<Rightarrow> real list list) \<Rightarrow> real list list \<Rightarrow> real list list
   \<Rightarrow> nat list \<Rightarrow> real list \<Rightarrow> real \<Rightarrow> error + ndarray \<times> real list list" where
  "train_alpha solver x_train y_train M_vals sigma lam =
     (case take_rows x_train M_vals of
        Inl e \<Rightarrow> Inl e
      | Inr X_i_vals \<Rightarrow>
          (case generate_K x_train M_vals sigma of
             Inl e \<Rightarrow> Inl e
           | Inr KnM \<Rightarrow>
               (case generate_K X_i_vals [0..<length M_vals] sigma of
                  Inl e \<Rightarrow> Inl e
                | Inr KMM \<Rightarrow>
                    (case np_matmul (np_T KnM) KnM of
                       Inl e \<Rightarrow> Inl e
                     | Inr G \<Rightarrow>
                         (case np_add G (np_scale lam KMM) of
                            Inl e \<Rightarrow> Inl e
                          | Inr a \<Rightarrow>
                              (case np_matmul (np_T KnM) (Mat y_train) of
                                 Inl e \<Rightarrow> Inl e
                               | Inr b \<Rightarrow>
                                   (case lstsq solver a b of
                                      Inl e \<Rightarrow> Inl e
                                    | Inr alpha \<Rightarrow> Inr (alpha, X_i_vals))))))))"

subsection \<open>The normal equations in the words of the specification\<close>

text \<open>The matrix with \<open>r\<close> rows and \<open>c\<close> columns of the entries \<open>f i j\<close>.\<close>

definition mat_of :: "nat \<Rightarrow> nat \<Rightarrow> (nat \<Rightarrow> nat \<Rightarrow> real) \<Rightarrow> real list list" where
  "mat_of r c f = map (\<lambda>i. map (\<lambda>j. f i j) [0..<c]) [0..<r]"

text \<open>
  The kernel of the specification: \<open>exp (- sum of d i squared / (2 sigma i squared))\<close> over
  the five components, with \<open>d 2\<close> the sine of half the difference.
\<close>

definition spec_kernel :: "real list \<Rightarrow> real list \<Rightarrow> real list \<Rightarrow> real" where
  "spec_kernel x x' sigma =
     exp (- (\<Sum>i<5. (if i = 2 then sin ((x ! i - x' ! i) / 2) else x ! i - x' ! i)\<^sup>2
                    / (2 * (sigma ! i)\<^sup>2)))"

text \<open>
  \<open>K_nm\<close>: every training point against every basis point; \<open>K_mm\<close>: every basis point
  against every basis point.
\<close>

definition spec_K_nm :: "real list list \<Rightarrow> nat list \<Rightarrow> real list \<Rightarrow> real list list" where
  "spec_K_nm X M sigma =
     mat_of (length X) (length M) (\<lambda>i j. spec_kernel (X ! i) (X ! (M ! j)) sigma)"

definition spec_K_mm :: "real list list \<Rightarrow> nat list \<Rightarrow> real list \<Rightarrow> real list list" where
  "spec_K_mm X M sigma =
     mat_of (length M) (length M) (\<lambda>a b. spec_kernel (X ! (M ! a)) (X ! (M ! b)) sigma)"

text \<open>The two sides \<open>K_nm^T K_nm + lam K_mm\<close> and \<open>K_nm^T Y_train\<close> of the normal equations.\<close>

definition spec_lhs :: "real list list \<Rightarrow> nat list \<Rightarrow> real list \<Rightarrow> real \<Rightarrow> real list list" where
  "spec_lhs X M sigma lam =
     mat_of (length M) (length M)
       (\<lambda>a b. (\<Sum>i<length X. spec_K_nm X M sigma ! i ! a * spec_K_nm X M sigma ! i ! b)
              + lam * spec_K_mm X M sigma ! a ! b)"

definition spec_rhs :: "real list list \<Rightarrow> real list list \<Rightarrow> nat list \<Rightarrow> real list \<Rightarrow> real list list" where
  "spec_rhs X Y M sigma =
     mat_of (length M) 4 (\<lambda>a c. \<Sum>i<length X. spec_K_nm X M sigma ! i ! a * Y ! i ! c)"

text \<open>
  A least-squares solution of \<open>A x = B\<close>: a matrix \<open>x\<close> of the right shape whose residual,
  the sum of the squared entries of \<open>A x - B\<close>, is the least among all such matrices.
\<close>

definition residual :: "real list list \<Rightarrow> real list list \<Rightarrow> real list list \<Rightarrow> real" where
  "residual A B x =
     (\<Sum>a<length A. \<Sum>c<ncols B. ((\<Sum>b<ncols A. A ! a ! b * x ! b ! c) - B ! a ! c)\<^sup>2)"

definition has_shape :: "nat \<Rightarrow> nat \<Rightarrow> real list list \<Rightarrow> bool" where
  "has_shape r c x \<longleftrightarrow> length x = r \<and> list_all (\<lambda>row. length row = c) x"

definition least_squares_solution :: "real list list \<Rightarrow> real list list \<Rightarrow> real list list \<Rightarrow> bool" where
  "least_squares_solution A B x \<longleftrightarrow>
     has_shape (ncols A) (ncols B) x
     \<and> (\<forall>y. has_shape (ncols A) (ncols B) y \<longrightarrow> residual A B x \<le> residual A B y)"

subsection \<open>Auxiliary definitions for the statements\<close>

text \<open>
  One pass of the loop of \<open>move_cart\<close> when no noise is added: \<open>performAction\<close>, then the
  remapping of the angle if asked for; and the row the pass appends to the history.
\<close>

definition advance :: "bool \<Rightarrow> real \<Rightarrow> cartpole \<Rightarrow> cartpole" where
  "advance remap action cp =
     (let cp1 = performAction action cp in if remap then remap_angle_cp cp1 else cp1)"

definition row_of :: "cartpole \<Rightarrow> real \<Rightarrow> real list" where
  "row_of cp action = getState cp @ [action]"

text \<open>The down-hanging state set by \<open>__init__\<close> and \<open>reset\<close>.\<close>

definition hanging :: cartpole where
  "hanging = setState CartPole_init (0, 0, pi, 0)"

text \<open>One memory extends another: nothing allocated in the first has changed.\<close>

definition heap_extends :: "heap \<Rightarrow> heap \<Rightarrow> bool" where
  "heap_extends h h' \<longleftrightarrow>
     vtop h \<le> vtop h' \<and> mtop h \<le> mtop h' \<and> otop h \<le> otop h'
     \<and> (\<forall>a<vtop h. vecs h' a = vecs h a)
     \<and> (\<forall>a<mtop h. mats h' a = mats h a)
     \<and> (\<forall>a<otop h. objs h' a = objs h a)"

text \<open>
  A memory after a fit: \<open>sigma\<close> and a query as vectors 0 and 1, \<open>alpha\<close> and the two
  basis points as matrices 0 and 1.
\<close>

definition fit_heap :: heap where
  "fit_heap =
     \<lparr> vecs = (\<lambda>_. [])(0 := [1, 1, 1, 1, 1], 1 := [0, 0, 0, 0, 0]), vtop = 2,
       mats = (\<lambda>_. [])(0 := [[1, 2, 3, 4], [5, 6, 7, 8]], 1 := [[0, 0, 0, 0, 0], [1, 0, 0, 0, 0]]),
       mtop = 2, objs = (\<lambda>_. []), otop = 0 \<rparr>"


section \<open>Verified properties\<close>

subsection \<open>The down-hanging equilibrium\<close>

lemma euler_step_hanging: "euler_step 0 hanging = hanging"
  by (simp add: euler_step_def hanging_def setState_def CartPole_init_def Let_def)

lemma integrate_hanging: "integrate n 0 hanging = hanging"
  by (induction n) (simp_all add: euler_step_hanging)

lemma performAction_hanging: "performAction 0 hanging = hanging"
proof -
  have "max_force hanging * tanh (0 / max_force hanging) = 0" by simp
  then show ?thesis by (simp add: performAction_def integrate_hanging)
qed

text \<open>
  C5. The down-hanging state is an exact fixed point of the integrator: from
  \<open>(0, 0, pi, 0)\<close>, any number of calls of \<open>performAction\<close> with action 0 leaves the whole
  object, and so the state \<open>(0, 0, pi, 0)\<close>, as it is. The step lemmas above give the
  reason: \<open>sin pi = 0\<close> makes both accelerations zero in every pass of the loop.
\<close>
theorem hanging_fixed_point: "(performAction 0 ^^ n) hanging = hanging \<and> getState hanging = [0, 0, pi, 0]"
  by (induction n) (simp_all add: performAction_hanging funpow_swap1, simp add: hanging_def getState_def setState_def CartPole_init_def)

subsection \<open>The angle normaliser\<close>















subsection \<open>The rollout\<close>

lemma setState_own:
  "setState cp (cart_location cp, cart_velocity cp, pole_angle cp, pole_velocity cp) = cp"
  by (simp add: setState_def)

lemma rollout_loop_Suc_quiet:
  "rollout_loop (Suc k) ix remap False kw cp a hist n =
     rollout_loop k ix remap False kw (advance remap a cp) a
       (Some ((case hist of None \<Rightarrow> [ix] | Some h \<Rightarrow> h) @ [row_of (advance remap a cp) a])) (Suc n)"
  by (cases hist) (simp_all add: Let_def advance_def row_of_def getState_def setState_own)

lemma rollout_loop_quiet:
  "rollout_loop k ix remap False kw cp a (Some h) n =
     (n + k, Inr (Some (h @ map (\<lambda>i. row_of ((advance remap a ^^ i) cp) a) [1..<Suc k])))"
proof (induction k arbitrary: cp h n)
  case 0
  then show ?case by simp
next
  case (Suc k)
  have m: "map (\<lambda>i. row_of ((advance remap a ^^ i) cp) a) [1..<Suc (Suc k)]
         = row_of (advance remap a cp) a # map (\<lambda>i. row_of ((advance remap a ^^ i) (advance remap a cp)) a) [1..<Suc k]"
  proof -
    have "[1..<Suc (Suc k)] = 1 # map Suc [1..<Suc k]"
      by (metis One_nat_def map_Suc_upt upt_conv_Cons zero_less_Suc Suc_less_eq)
    then show ?thesis by (simp add: comp_def funpow_swap1)
  qed
  show ?case
    unfolding rollout_loop_Suc_quiet by (simp only: Suc.IH m option.case) simp
qed

lemma rollout_loop_first:
  "rollout_loop (Suc k) ix remap False kw cp a None n =
     (n + Suc k, Inr (Some (ix # map (\<lambda>i. row_of ((advance remap a ^^ i) cp) a) [1..<Suc (Suc k)])))"
proof -
  have m: "map (\<lambda>i. row_of ((advance remap a ^^ i) cp) a) [1..<Suc (Suc k)]
         = row_of (advance remap a cp) a # map (\<lambda>i. row_of ((advance remap a ^^ i) (advance remap a cp)) a) [1..<Suc k]"
  proof -
    have "[1..<Suc (Suc k)] = 1 # map Suc [1..<Suc k]"
      by (metis One_nat_def map_Suc_upt upt_conv_Cons zero_less_Suc Suc_less_eq)
    then show ?thesis by (simp add: comp_def funpow_swap1)
  qed
  show ?thesis
    unfolding rollout_loop_Suc_quiet by (simp only: rollout_loop_quiet m option.case) simp
qed

lemma move_cart_quiet:
  assumes "1 \<le> steps" "steps \<noteq> 4"
  shows "rollout_loop (nat steps) [x, v, th, w, a] remap False kw (setState CartPole_init (x, v, th, w)) a None 0
           = (nat steps, Inr (Some ([x, v, th, w, a] #
                map (\<lambda>i. row_of ((advance remap a ^^ i) (setState CartPole_init (x, v, th, w))) a) [1..<Suc (nat steps)])))"
    and "move_cart [x, v, th, w, a] steps remap False kw
           = (nat steps, Inr (Vec (row_of ((advance remap a ^^ nat steps) (setState CartPole_init (x, v, th, w))) a)))"
proof -
  obtain k where k: "nat steps = Suc k" using assms(1) by (cases "nat steps") auto
  let ?cp = "setState CartPole_init (x, v, th, w)"
  let ?h = "[x, v, th, w, a] # map (\<lambda>i. row_of ((advance remap a ^^ i) ?cp) a) [1..<Suc (Suc k)]"
  have loopk: "rollout_loop (Suc k) [x, v, th, w, a] remap False kw ?cp a None 0 = (Suc k, Inr (Some ?h))"
    by (simp only: rollout_loop_first) simp
  then show "rollout_loop (nat steps) [x, v, th, w, a] remap False kw ?cp a None 0
           = (nat steps, Inr (Some ([x, v, th, w, a] #
                map (\<lambda>i. row_of ((advance remap a ^^ i) ?cp) a) [1..<Suc (nat steps)])))"
    unfolding k .
  have "k \<noteq> 3" using k assms(2) by linarith
  then have len: "length ?h \<noteq> 5" by simp
  have "[1..<Suc (Suc k)] = [1..<Suc k] @ [Suc k]" by simp
  then have lst: "last ?h = row_of ((advance remap a ^^ Suc k) ?cp) a" by (simp del: upt_Suc funpow.simps)
  have "move_cart [x, v, th, w, a] steps remap False kw =
          (case rollout_loop (Suc k) [x, v, th, w, a] remap False kw ?cp a None 0 of
             (n, Inl e) \<Rightarrow> (n, Inl e)
           | (n, Inr None) \<Rightarrow> (n, Inl UnboundLocalError)
           | (n, Inr (Some h)) \<Rightarrow> (n, Inr (if length h \<noteq> 5 then Vec (last h) else Mat h)))"
    using assms(2) by (simp add: move_cart_def k del: rollout_loop.simps)
  also have "\<dots> = (Suc k, Inr (Vec (last ?h)))"
    unfolding loopk using len by (simp del: upt_Suc funpow.simps)
  finally show "move_cart [x, v, th, w, a] steps remap False kw
           = (nat steps, Inr (Vec (row_of ((advance remap a ^^ nat steps) ?cp) a)))"
    unfolding lst k .
qed

text \<open>
  C3. With \<open>steps = 0\<close> the loop body never runs, \<open>x_history\<close> is never bound, and the
  read of it before the \<open>return\<close> raises: for every 5-vector, \<open>move_cart\<close> fails with
  \<open>UnboundLocalError\<close> instead of returning the initial row.
\<close>
theorem move_cart_zero_steps_unbound: "move_cart [x, v, th, w, a] 0 remap False kw = (0, Inl UnboundLocalError)"
  by (simp add: move_cart_def)

text \<open>
  C10. For every input, \<open>move_cart\<close> with \<open>steps = 4\<close> raises \<open>AssertionError\<close> with no call
  of \<open>performAction\<close> made, while every other step count from 1 on is accepted for a
  5-vector (without noise): the call returns, after \<open>steps\<close> calls of \<open>performAction\<close>.
\<close>
theorem move_cart_four_steps_rejected:
  "move_cart ix 4 remap noisy kw = (0, Inl AssertionError) \<and>
   (1 \<le> steps \<and> steps \<noteq> 4 \<longrightarrow> (\<exists>r. move_cart [x, v, th, w, a] steps remap False kw = (nat steps, Inr r)))"
  using move_cart_quiet(2) by (simp add: move_cart_def)

theorem move_cart_four_steps_rejected_witness:
  "move_cart [0, 0, pi, 0, 0] 4 False False no_kwargs = (0, Inl AssertionError) \<and>
   (1::int) \<le> 3 \<and> (3::int) \<noteq> 4 \<and> (\<exists>r. move_cart [0, 0, pi, 0, 0] 3 False False no_kwargs = (nat 3, Inr r))"
  using move_cart_four_steps_rejected[of "[0, 0, pi, 0, 0]" False False no_kwargs 3 0 0 pi 0 0] by simp

text \<open>
  The extent of the defect reported for C2: for every 5-vector and every step count from 1
  on other than 4, the loop of \<open>move_cart\<close> (without noise) builds the history of
  \<open>steps + 1\<close> rows whose first row is the initial 5-vector, and the \<open>return\<close> statement
  hands out the last row only.
\<close>
lemma move_cart_returns_last_row:
  assumes "1 \<le> steps" "steps \<noteq> 4"
  shows "\<exists>h. rollout_loop (nat steps) [x, v, th, w, a] remap False kw (setState CartPole_init (x, v, th, w)) a None 0
                = (nat steps, Inr (Some h))
           \<and> length h = nat steps + 1 \<and> hd h = [x, v, th, w, a]
           \<and> last h = row_of ((advance remap a ^^ nat steps) (setState CartPole_init (x, v, th, w))) a
           \<and> move_cart [x, v, th, w, a] steps remap False kw = (nat steps, Inr (Vec (last h)))"
proof -
  let ?cp = "setState CartPole_init (x, v, th, w)"
  let ?h = "[x, v, th, w, a] # map (\<lambda>i. row_of ((advance remap a ^^ i) ?cp) a) [1..<Suc (nat steps)]"
  have n: "0 < nat steps" using assms(1) by simp
  have "[1..<Suc (nat steps)] = [1..<nat steps] @ [nat steps]" using n by simp
  then have lst: "last ?h = row_of ((advance remap a ^^ nat steps) ?cp) a" by (simp del: upt_Suc funpow.simps)
  have len: "length ?h = nat steps + 1" using n by simp
  show ?thesis
    apply (rule exI[of _ ?h])
    apply (simp only: move_cart_quiet[OF assms] lst len)
    apply simp
    done
qed

text \<open>
  C2. The rollout is to return the whole trajectory, \<open>steps + 1\<close> rows of which the first
  is the initial (state, action) row, as the docstring of \<open>move_cart\<close> says (\<open>x_history\<close> of
  the state at discrete intervals). The code does not: with one step from
  \<open>(0, 0, pi, 0, 0)\<close>, where the trajectory is the initial row twice, \<open>move_cart\<close> returns
  the single row reached and not the two rows, because its \<open>return\<close> statement hands out
  \<open>x_history[-1]\<close> unless the history has exactly five rows.
\<close>
theorem move_cart_returns_single_row:
  "snd (move_cart [0, 0, pi, 0, 0] 1 False False no_kwargs) = Inr (Vec [0, 0, pi, 0, 0])
   \<and> snd (move_cart [0, 0, pi, 0, 0] 1 False False no_kwargs)
       \<noteq> Inr (Mat [[0, 0, pi, 0, 0], [0, 0, pi, 0, 0]])"
proof -
  have "advance False 0 hanging = hanging"
    by (simp add: advance_def performAction_hanging)
  then have "row_of ((advance False 0 ^^ nat 1) (setState CartPole_init (0, 0, pi, 0))) 0 = [0, 0, pi, 0, 0]"
    by (simp add: hanging_def row_of_def getState_def setState_def CartPole_init_def)
  then show ?thesis
    using move_cart_quiet(2)[of 1 0 0 pi 0 0 False no_kwargs] by simp
qed

subsection \<open>The kernel\<close>

lemma list5: "length xs = 5 \<Longrightarrow> \<exists>a b c d e. xs = [a, b, c, d, e]"
  by (cases xs; simp; cases "tl xs"; simp; cases "tl (tl xs)"; simp; cases "tl (tl (tl xs))"; simp; cases "tl (tl (tl (tl xs)))"; simp)

text \<open>
  C6. For 5-vectors \<open>x\<close>, \<open>x'\<close> and a \<open>sigma\<close> of five nonzero components, \<open>kernel\<close> returns
  a value, and the same value when \<open>2 * pi\<close> is added to the angle component of \<open>x\<close>; in
  particular, when the angle components differ by exactly \<open>2 * pi\<close>, the value is the one
  obtained with that difference set to 0.
\<close>
theorem kernel_angle_periodic:
  assumes "length x = 5" "length x' = 5" "length sigma = 5" "\<forall>s\<in>set sigma. s \<noteq> 0"
  shows "\<exists>k. kernel x x' sigma = Inr k \<and> 0 < k
           \<and> kernel (x[2 := x ! 2 + 2 * pi]) x' sigma = Inr k
           \<and> (x ! 2 = x' ! 2 + 2 * pi \<longrightarrow> kernel (x[2 := x' ! 2]) x' sigma = Inr k)"
proof -
  obtain a b c d e where x: "x = [a, b, c, d, e]" using list5[OF assms(1)] by blast
  obtain a' b' c' d' e' where x': "x' = [a', b', c', d', e']" using list5[OF assms(2)] by blast
  obtain p q u v w where s: "sigma = [p, q, u, v, w]" using list5[OF assms(3)] by blast
  have up: "[0..<5] = [0, 1, 2, 3, 4]" by (simp add: upt_rec)
  have shift: "sin ((c + 2 * pi - c') / 2) = - sin ((c - c') / 2)"
  proof -
    have "(c + 2 * pi - c') / 2 = (c - c') / 2 + pi" by (simp add: field_simps)
    then show ?thesis by (simp only: sin_periodic_pi)
  qed
  have zero: "c = c' + 2 * pi \<Longrightarrow> (sin ((c - c') / 2))\<^sup>2 = (sin ((c' - c') / 2))\<^sup>2"
    by simp
  show ?thesis
    using zero by (simp add: kernel_def squared_numerator_def np_divide_def x x' s up shift)
qed

theorem kernel_angle_periodic_witness:
  "length [0, 0, 2 * pi, 0, 0::real] = 5 \<and> length [0, 0, 0, 0, 0::real] = 5
   \<and> length [1, 1, 1, 1, 1::real] = 5 \<and> 0 \<notin> set [1, 1, 1, 1, 1::real]
   \<and> (\<exists>k. kernel [0, 0, 2 * pi, 0, 0] [0, 0, 0, 0, 0] [1, 1, 1, 1, 1] = Inr k \<and> 0 < k
           \<and> kernel ([0, 0, 2 * pi, 0, 0][2 := [0, 0, 2 * pi, 0, 0] ! 2 + 2 * pi]) [0, 0, 0, 0, 0] [1, 1, 1, 1, 1] = Inr k
           \<and> [0, 0, 2 * pi, 0, 0] ! 2 = [0, 0, 0, 0, 0::real] ! 2 + 2 * pi
           \<and> kernel ([0, 0, 2 * pi, 0, 0][2 := [0, 0, 0, 0, 0] ! 2]) [0, 0, 0, 0, 0] [1, 1, 1, 1, 1] = Inr k)"
proof -
  have h: "\<forall>s\<in>set [1, 1, 1, 1, 1::real]. s \<noteq> 0" by simp
  have e: "[0, 0, 2 * pi, 0, 0] ! 2 = [0, 0, 0, 0, 0::real] ! 2 + 2 * pi" by simp
  show ?thesis
    using kernel_angle_periodic[of "[0, 0, 2 * pi, 0, 0]" "[0, 0, 0, 0, 0]" "[1, 1, 1, 1, 1]", OF _ _ _ h] e
    by (simp del: list_update.simps nth_Cons_numeral)
qed

subsection \<open>The falling pole\<close>

text \<open>
  A lower bound of \<open>pi\<close> from the Maclaurin polynomial of the sine, and the bounds on one
  pass of the integration loop that hold while the pole is between 3 and 3.12 radians.
\<close>

lemma sin_25_8_pos: "0 < sin (25 / 8 :: real)"
proof -
  let ?x = "25 / 8 :: real"
  have b: "\<bar>sin ?x - (\<Sum>m<13. sin_coeff m * ?x ^ m)\<bar> \<le> inverse (fact 13) * \<bar>?x\<bar> ^ 13"
    by (rule Maclaurin_sin_bound)
  have p: "(\<Sum>m<13. sin_coeff m * ?x ^ m) - inverse (fact 13) * \<bar>?x\<bar> ^ 13 > 0"
    by (simp add: lessThan_nat_numeral sin_coeff_def fact_numeral power_divide)
  show ?thesis using b p by linarith
qed

lemma pi_gt_25_8: "25 / 8 < pi"
proof (rule ccontr)
  assume "\<not> 25 / 8 < pi"
  then have "pi \<le> 25 / 8" by simp
  moreover have "(25 / 8 :: real) < 2 * pi" using pi_ge_two by linarith
  ultimately have "sin (25 / 8 :: real) \<le> 0" by (rule sin_le_zero)
  then show False using sin_25_8_pos by linarith
qed

lemma sin_ge_half:
  fixes y :: real
  assumes "0 \<le> y" "y \<le> 1"
  shows "y / 2 \<le> sin y"
proof -
  have "\<bar>sin y - (\<Sum>m<3. sin_coeff m * y ^ m)\<bar> \<le> inverse (fact 3) * \<bar>y\<bar> ^ 3"
    by (rule Maclaurin_sin_bound)
  moreover have "(\<Sum>m<3. sin_coeff m * y ^ m) = y"
    by (simp add: lessThan_nat_numeral sin_coeff_def fact_numeral)
  moreover have "inverse (fact 3) * \<bar>y\<bar> ^ 3 = y ^ 3 / 6"
    using assms by (simp add: fact_numeral)
  moreover have "y ^ 3 \<le> y"
  proof -
    have "y ^ 3 = y * (y * y)" by (simp add: power3_eq_cube)
    also have "\<dots> \<le> y * 1" using assms by (intro mult_left_mono) (simp_all add: mult_le_one)
    finally show ?thesis by simp
  qed
  ultimately show ?thesis by linarith
qed

lemma euler_step_default:
  fixes x v th w :: real
  assumes m: "m = 4.0 * (0.5 + 0.5) - 3.0 * 0.5 * (cos th)\<^sup>2"
    and Nc: "Nc = 2.0 * (0.5 * 0.5 * w\<^sup>2 * sin th + 0 - 0.001 * v) - 3.0 * 0.5 * 9.8 * cos th * sin th"
    and Np: "Np = - 3.0 * cos th * (0.5 / 2.0 * 0.5 * w\<^sup>2 * sin th + 0 - 0.001 * v)
                  + 6.0 * (0.5 + 0.5) / (0.5 * 0.5) * (0.5 * 9.8 * sin th - 2.0 / 0.5 * 0.001 * w)"
    and v': "v' = v + 0.05 / real (50::nat) * (Nc / m)"
    and w': "w' = w + 0.05 / real (50::nat) * (Np / m)"
  shows "euler_step 0 (setState CartPole_init (x, v, th, w))
           = setState CartPole_init (x + 0.05 / real (50::nat) * v', v', th + 0.05 / real (50::nat) * w', w')"
  unfolding assms
  by (simp add: euler_step_def setState_def CartPole_init_def Let_def)

lemma step_arith:
  fixes s c v w :: real
  assumes s: "1 / 400 \<le> s" "s \<le> 1" and c: "- 1 \<le> c" "c < 0"
    and v: "0 \<le> v" "v \<le> 352 / 1000" and w: "0 \<le> w" "w \<le> 24 / 10"
    and m: "m = 4.0 * (0.5 + 0.5) - 3.0 * 0.5 * c\<^sup>2"
    and Nc: "Nc = 2.0 * (0.5 * 0.5 * w\<^sup>2 * s + 0 - 0.001 * v) - 3.0 * 0.5 * 9.8 * c * s"
    and Np: "Np = - 3.0 * c * (0.5 / 2.0 * 0.5 * w\<^sup>2 * s + 0 - 0.001 * v)
                  + 6.0 * (0.5 + 0.5) / (0.5 * 0.5) * (0.5 * 9.8 * s - 2.0 / 0.5 * 0.001 * w)"
    and v': "v' = v + 0.05 / real (50::nat) * (Nc / m)"
    and w': "w' = w + 0.05 / real (50::nat) * (Np / m)"
  shows "0 < v'" "v' \<le> v + 704 / 100000" "0 < w'" "w' \<le> w + 48 / 1000"
proof -
  have c2: "c\<^sup>2 \<le> 1" using c by (simp add: abs_square_le_1 abs_le_iff)
  have c2': "0 \<le> c\<^sup>2" by simp
  have m': "m = 4 - 3 / 2 * c\<^sup>2" unfolding m by simp
  have mlo: "5 / 2 \<le> m" using c2 unfolding m' by linarith
  have mhi: "m \<le> 4" using c2' unfolding m' by linarith
  have mpos: "0 < m" using mlo by linarith
  have w2: "0 \<le> w\<^sup>2" by simp
  have w2hi: "w\<^sup>2 \<le> (24 / 10)\<^sup>2" by (rule power_mono) (use w in simp_all)
  have w2s: "0 \<le> w\<^sup>2 * s" by (rule mult_nonneg_nonneg) (use s in simp_all)
  have "w\<^sup>2 * s \<le> w\<^sup>2 * 1" by (rule mult_left_mono) (use s in simp_all)
  then have w2s': "w\<^sup>2 * s \<le> w\<^sup>2" by simp
  have w2n: "w\<^sup>2 \<le> 576 / 100" using w2hi by (simp add: power2_eq_square)
  have cs: "c * s < 0" by (rule mult_neg_pos) (use c s in simp_all)
  have cs': "- 1 \<le> c * s"
  proof -
    have "(- c) * s \<le> 1 * 1" by (rule mult_mono) (use c s in simp_all)
    then show ?thesis by simp
  qed
  have cw: "0 \<le> (- c) * (w\<^sup>2 * s)" by (rule mult_nonneg_nonneg) (use c w2s in simp_all)
  have "(- c) * (w\<^sup>2 * s) \<le> 1 * (w\<^sup>2 * s)" by (rule mult_right_mono) (use c w2s in simp_all)
  then have cw': "(- c) * (w\<^sup>2 * s) \<le> w\<^sup>2 * s" by simp
  have cv: "- v \<le> c * v"
  proof -
    have "(- c) * v \<le> 1 * v" by (rule mult_right_mono) (use c v in simp_all)
    then show ?thesis by simp
  qed
  have cv': "c * v \<le> 0" using c v by (simp add: mult_nonpos_nonneg)
  have Nc': "Nc = 1 / 2 * (w\<^sup>2 * s) - v / 500 - 147 / 10 * (c * s)" unfolding Nc by (simp add: algebra_simps)
  have Np': "Np = 3 / 8 * ((- c) * (w\<^sup>2 * s)) + 3 / 1000 * (c * v) + 1176 / 10 * s - 96 / 1000 * w"
    unfolding Np by (simp add: algebra_simps)
  define ac where "ac = Nc / m"
  define ap where "ap = Np / m"
  have v'': "v' = v + ac / 1000" unfolding v' ac_def by simp
  have w'': "w' = w + ap / 1000" unfolding w' ap_def by simp
  \<comment> \<open>cart velocity\<close>
  have "0 < 1000 * m * v + Nc"
  proof -
    have "0 \<le> (1000 * m - 1 / 500) * v" by (rule mult_nonneg_nonneg) (use mlo v in simp_all)
    then have "0 \<le> 1000 * m * v - v / 500" by (simp add: algebra_simps)
    then show ?thesis using w2s cs unfolding Nc' by linarith
  qed
  then have "0 < (1000 * m * v + Nc) / (1000 * m)" using mpos by simp
  moreover have "(1000 * m * v + Nc) / (1000 * m) = v'" using mpos unfolding v'' ac_def by (simp add: field_simps)
  ultimately show "0 < v'" by simp
  have Nchi: "Nc \<le> 1758 / 100" using w2s' w2n v cs' unfolding Nc' by linarith
  have "Nc / m \<le> 704 / 100"
  proof -
    have "Nc \<le> 704 / 100 * m" using Nchi mlo by linarith
    then show ?thesis using mpos by (simp add: pos_divide_le_eq)
  qed
  then have "ac \<le> 704 / 100" by (simp only: ac_def)
  then show "v' \<le> v + 704 / 100000" unfolding v'' by linarith
  \<comment> \<open>pole velocity\<close>
  have "0 < 1000 * m * w + Np"
  proof -
    have "0 \<le> (1000 * m - 96 / 1000) * w" by (rule mult_nonneg_nonneg) (use mlo w in simp_all)
    then have "0 \<le> 1000 * m * w - 96 / 1000 * w" by (simp add: algebra_simps)
    then show ?thesis using cw cv s v unfolding Np' by linarith
  qed
  then have "0 < (1000 * m * w + Np) / (1000 * m)" using mpos by simp
  moreover have "(1000 * m * w + Np) / (1000 * m) = w'" using mpos unfolding w'' ap_def by (simp add: field_simps)
  ultimately show "0 < w'" by simp
  have Nphi: "Np \<le> 120" using cw' w2s' w2n cv' s w unfolding Np' by linarith
  have "Np / m \<le> 48"
  proof -
    have "Np \<le> 48 * m" using Nphi mlo by linarith
    then show ?thesis using mpos by (simp add: pos_divide_le_eq)
  qed
  then have "ap \<le> 48" by (simp only: ap_def)
  then show "w' \<le> w + 48 / 1000" unfolding w'' by linarith
qed

lemma trig_region:
  fixes th :: real
  assumes "3 \<le> th" "th \<le> 312 / 100"
  shows "1 / 400 \<le> sin th" "sin th \<le> 1" "- 1 \<le> cos th" "cos th < 0"
proof -
  have p: "25 / 8 < pi" by (rule pi_gt_25_8)
  have q: "pi < 4" by (rule pi_less_4)
  let ?y = "pi - th"
  have "?y / 2 \<le> sin ?y" by (rule sin_ge_half) (use assms p q in linarith)+
  then show "1 / 400 \<le> sin th" using assms p by simp
  show "sin th \<le> 1" by simp
  show "- 1 \<le> cos th" by simp
  have "cos th < cos (pi / 2)"
    by (rule cos_monotone_0_pi) (use assms p q in linarith)+
  then show "cos th < 0" by simp
qed

lemma inv_step:
  fixes x v th w :: real
  assumes k: "k < (50::nat)"
    and b: "0 \<le> x" "0 \<le> v" "v \<le> real k * (704 / 100000)" "0 \<le> w" "w \<le> real k * (48 / 1000)"
           "3 \<le> th" "th \<le> 3 + real k * (24 / 10000)"
  shows "\<exists>x' v' th' w'.
           euler_step 0 (setState CartPole_init (x, v, th, w)) = setState CartPole_init (x', v', th', w')
           \<and> 0 < x' \<and> 0 < v' \<and> v' \<le> real (Suc k) * (704 / 100000)
           \<and> 0 < w' \<and> w' \<le> real (Suc k) * (48 / 1000)
           \<and> 3 < th' \<and> th' \<le> 3 + real (Suc k) * (24 / 10000)"
proof -
  have k': "real k \<le> 49" using k by simp
  have vb: "v \<le> 352 / 1000" using b(3) k' by linarith
  have wb: "w \<le> 24 / 10" using b(5) k' by linarith
  have tb: "th \<le> 312 / 100" using b(7) k' by linarith
  note tr = trig_region[OF b(6) tb]
  define m where "m = 4.0 * (0.5 + 0.5) - 3.0 * 0.5 * (cos th)\<^sup>2"
  define Nc where "Nc = 2.0 * (0.5 * 0.5 * w\<^sup>2 * sin th + 0 - 0.001 * v) - 3.0 * 0.5 * 9.8 * cos th * sin th"
  define Np where "Np = - 3.0 * cos th * (0.5 / 2.0 * 0.5 * w\<^sup>2 * sin th + 0 - 0.001 * v)
                  + 6.0 * (0.5 + 0.5) / (0.5 * 0.5) * (0.5 * 9.8 * sin th - 2.0 / 0.5 * 0.001 * w)"
  define v' where "v' = v + 0.05 / real (50::nat) * (Nc / m)"
  define w' where "w' = w + 0.05 / real (50::nat) * (Np / m)"
  note ar = step_arith[OF tr b(2) vb b(4) wb m_def Nc_def Np_def v'_def w'_def]
  have e: "euler_step 0 (setState CartPole_init (x, v, th, w))
           = setState CartPole_init (x + 0.05 / real (50::nat) * v', v', th + 0.05 / real (50::nat) * w', w')"
    by (rule euler_step_default[OF m_def Nc_def Np_def v'_def w'_def])
  have sk: "real (Suc k) * c = real k * c + c" for c :: real by (simp add: algebra_simps)
  have x': "0 < x + 0.05 / real (50::nat) * v'" using b(1) ar(1) by simp
  have vhi: "v' \<le> real (Suc k) * (704 / 100000)" using ar(2) b(3) unfolding sk by linarith
  have whi: "w' \<le> real (Suc k) * (48 / 1000)" using ar(4) b(5) unfolding sk by linarith
  have w50: "w' \<le> 24 / 10" using whi k' unfolding sk by linarith
  have th': "3 < th + 0.05 / real (50::nat) * w'" using b(6) ar(3) by simp
  have "0.05 / real (50::nat) * w' = w' / 1000" by simp
  then have thhi: "th + 0.05 / real (50::nat) * w' \<le> 3 + real (Suc k) * (24 / 10000)"
    using w50 b(7) unfolding sk by linarith
  show ?thesis using e x' ar(1) vhi ar(3) whi th' thhi by blast
qed

lemma inv_integrate:
  fixes x v th w :: real
  assumes "k + n \<le> (50::nat)"
    and "0 \<le> x" "0 \<le> v" "v \<le> real k * (704 / 100000)" "0 \<le> w" "w \<le> real k * (48 / 1000)"
        "3 \<le> th" "th \<le> 3 + real k * (24 / 10000)"
  shows "\<exists>x' v' th' w'.
           integrate n 0 (setState CartPole_init (x, v, th, w)) = setState CartPole_init (x', v', th', w')
           \<and> 0 \<le> x' \<and> 0 \<le> v' \<and> v' \<le> real (k + n) * (704 / 100000)
           \<and> 0 \<le> w' \<and> w' \<le> real (k + n) * (48 / 1000)
           \<and> 3 \<le> th' \<and> th' \<le> 3 + real (k + n) * (24 / 10000)
           \<and> (0 < n \<longrightarrow> 0 < x' \<and> 0 < v' \<and> 0 < w' \<and> 3 < th')"
  using assms
proof (induction n arbitrary: k x v th w)
  case 0
  then show ?case by auto
next
  case (Suc n)
  have k: "k < 50" using Suc.prems(1) by simp
  obtain x1 v1 th1 w1 where
    e: "euler_step 0 (setState CartPole_init (x, v, th, w)) = setState CartPole_init (x1, v1, th1, w1)"
    and s: "0 < x1" "0 < v1" "v1 \<le> real (Suc k) * (704 / 100000)"
           "0 < w1" "w1 \<le> real (Suc k) * (48 / 1000)" "3 < th1" "th1 \<le> 3 + real (Suc k) * (24 / 10000)"
    using inv_step[OF k Suc.prems(2-8)] by blast
  have kn: "Suc k + n \<le> 50" using Suc.prems(1) by simp
  obtain x' v' th' w' where
    i: "integrate n 0 (setState CartPole_init (x1, v1, th1, w1)) = setState CartPole_init (x', v', th', w')"
    and r: "0 \<le> x'" "0 \<le> v'" "v' \<le> real (Suc k + n) * (704 / 100000)"
           "0 \<le> w'" "w' \<le> real (Suc k + n) * (48 / 1000)" "3 \<le> th'" "th' \<le> 3 + real (Suc k + n) * (24 / 10000)"
    and p: "0 < n \<longrightarrow> 0 < x' \<and> 0 < v' \<and> 0 < w' \<and> 3 < th'"
    using Suc.IH[OF kn less_imp_le[OF s(1)] less_imp_le[OF s(2)] s(3) less_imp_le[OF s(4)] s(5)
        less_imp_le[OF s(6)] s(7)] by blast
  have strict: "0 < x' \<and> 0 < v' \<and> 0 < w' \<and> 3 < th'"
  proof (cases n)
    case 0
    then have "setState CartPole_init (x', v', th', w') = setState CartPole_init (x1, v1, th1, w1)"
      using i by simp
    then have "x' = x1" "v' = v1" "th' = th1" "w' = w1"
      by (simp_all add: setState_def CartPole_init_def)
    then show ?thesis using s by simp
  next
    case (Suc j)
    then show ?thesis using p by simp
  qed
  have eq: "Suc k + n = k + Suc n" by simp
  show ?case
    apply (rule exI[of _ x'], rule exI[of _ v'], rule exI[of _ th'], rule exI[of _ w'])
    using e i r strict unfolding eq by simp
qed

lemma perform_from_3:
  "\<exists>x' v' th' w'.
      performAction 0 (setState CartPole_init (0, 0, 3, 0)) = setState CartPole_init (x', v', th', w')
      \<and> 0 < x' \<and> 0 < v' \<and> 0 < w' \<and> 3 < th'"
proof -
  have f: "performAction 0 (setState CartPole_init (0, 0, 3, 0)) = integrate 50 0 (setState CartPole_init (0, 0, 3, 0))"
    by (simp add: performAction_def setState_def CartPole_init_def)
  have "\<exists>x' v' th' w'.
           integrate 50 0 (setState CartPole_init (0, 0, 3, 0)) = setState CartPole_init (x', v', th', w')
           \<and> 0 \<le> x' \<and> 0 \<le> v' \<and> v' \<le> real (0 + 50) * (704 / 100000)
           \<and> 0 \<le> w' \<and> w' \<le> real (0 + 50) * (48 / 1000)
           \<and> 3 \<le> th' \<and> th' \<le> 3 + real (0 + 50) * (24 / 10000)
           \<and> (0 < (50::nat) \<longrightarrow> 0 < x' \<and> 0 < v' \<and> 0 < w' \<and> 3 < th')"
    by (rule inv_integrate) simp_all
  then show ?thesis unfolding f by auto
qed

text \<open>
  C1, amended. From the state \<open>(0, 0, 3, 0)\<close> with action 0 and the default constants, one
  call of \<open>performAction\<close> changes all four components: the pole angle and the pole
  velocity grow, and the cart is pushed as the pole falls, so that the cart location and
  the cart velocity are strictly positive, not 0.
\<close>
theorem pole_falls_cart_moves:
  "0 < cart_location (performAction 0 (setState CartPole_init (0, 0, 3, 0)))
   \<and> 0 < cart_velocity (performAction 0 (setState CartPole_init (0, 0, 3, 0)))
   \<and> 3 < pole_angle (performAction 0 (setState CartPole_init (0, 0, 3, 0)))
   \<and> 0 < pole_velocity (performAction 0 (setState CartPole_init (0, 0, 3, 0)))"
proof -
  obtain x' v' th' w' where
    e: "performAction 0 (setState CartPole_init (0, 0, 3, 0)) = setState CartPole_init (x', v', th', w')"
    and p: "0 < x'" "0 < v'" "0 < w'" "3 < th'"
    using perform_from_3 by blast
  show ?thesis unfolding e using p by (simp add: setState_def)
qed

text \<open>
  C1, as stated, fails: after the call the cart location and the cart velocity are not
  both still 0 with the pole angle and velocity changed.
\<close>
theorem cart_stays_counterexample:
  "\<not> (cart_location (performAction 0 (setState CartPole_init (0, 0, 3, 0))) = 0
      \<and> cart_velocity (performAction 0 (setState CartPole_init (0, 0, 3, 0))) = 0
      \<and> pole_angle (performAction 0 (setState CartPole_init (0, 0, 3, 0))) \<noteq> 3
      \<and> pole_velocity (performAction 0 (setState CartPole_init (0, 0, 3, 0))) \<noteq> 0)"
proof -
  obtain x' v' th' w' where
    e: "performAction 0 (setState CartPole_init (0, 0, 3, 0)) = setState CartPole_init (x', v', th', w')"
    and p: "0 < x'" "0 < v'" "0 < w'" "3 < th'"
    using perform_from_3 by blast
  show ?thesis unfolding e using p by (simp add: setState_def)
qed

subsection \<open>Prediction leaves the fit alone\<close>

lemma kernel_st_value:
  assumes "sigma < vtop h"
  shows "fst (kernel_st X X_dash sigma h) = kernel X X_dash (vecs h sigma)"
  using assms
  by (cases "squared_numerator X X_dash")
     (auto simp: kernel_st_def kernel_def new_vec_def Let_def split: sum.splits)

lemma heap_extends_refl: "heap_extends h h"
  by (simp add: heap_extends_def)

lemma heap_extends_trans: "heap_extends h h1 \<Longrightarrow> heap_extends h1 h2 \<Longrightarrow> heap_extends h h2"
  unfolding heap_extends_def by (metis (no_types, lifting) le_trans less_le_trans)

lemma new_vec_extends: "new_vec v h = (a, h') \<Longrightarrow> heap_extends h h'"
  by (auto simp: new_vec_def heap_extends_def)

lemma new_mat_extends: "new_mat m h = (a, h') \<Longrightarrow> heap_extends h h'"
  by (auto simp: new_mat_def heap_extends_def)

lemma new_obj_extends: "new_obj m h = (a, h') \<Longrightarrow> heap_extends h h'"
  by (auto simp: new_obj_def heap_extends_def)

lemma kernel_st_extends: "kernel_st X X' sg h = (r, h') \<Longrightarrow> heap_extends h h'"
proof -
  assume k: "kernel_st X X' sg h = (r, h')"
  show ?thesis
  proof (cases "squared_numerator X X'")
    case None
    then show ?thesis using k by (simp add: kernel_st_def heap_extends_refl)
  next
    case (Some sq)
    obtain a h1 where 1: "new_vec sq h = (a, h1)" by fastforce
    obtain b h2 where 2: "new_vec (map (\<lambda>s. s\<^sup>2) (vecs h1 sg)) h1 = (b, h2)" by fastforce
    obtain c h3 where 3: "new_vec (map (\<lambda>s. 2 * s) (vecs h2 b)) h2 = (c, h3)" by fastforce
    have e3: "heap_extends h h3"
      using new_vec_extends[OF 1] new_vec_extends[OF 2] new_vec_extends[OF 3]
      by (blast intro: heap_extends_trans)
    show ?thesis
    proof (cases "np_divide (vecs h3 a) (vecs h3 c)")
      case (Inl e)
      then have "h' = h3" using k Some 1 2 3 by (simp add: kernel_st_def)
      then show ?thesis using e3 by simp
    next
      case (Inr q)
      obtain d h4 where 4: "new_vec q h3 = (d, h4)" by fastforce
      have "h' = h4" using k Some 1 2 3 Inr 4 by (simp add: kernel_st_def)
      then show ?thesis using e3 new_vec_extends[OF 4] by (blast intro: heap_extends_trans)
    qed
  qed
qed

lemma kernel_list_extends: "kernel_list X rs sg h = (r, h') \<Longrightarrow> heap_extends h h'"
proof (induction rs arbitrary: h r h')
  case Nil
  then show ?case by (simp add: heap_extends_refl)
next
  case (Cons x rs)
  obtain r1 h1 where 1: "kernel_st X x sg h = (r1, h1)" by fastforce
  note e1 = kernel_st_extends[OF 1]
  show ?case
  proof (cases r1)
    case (Inl e)
    then have "h' = h1" using Cons.prems 1 by simp
    then show ?thesis using e1 by simp
  next
    case (Inr k)
    obtain r2 h2 where 2: "kernel_list X rs sg h1 = (r2, h2)" by fastforce
    have "h' = h2" using Cons.prems 1 2 Inr by (cases r2) simp_all
    then show ?thesis using e1 Cons.IH[OF 2] by (blast intro: heap_extends_trans)
  qed
qed

lemma vstack_extends: "vstack K row h = (r, h') \<Longrightarrow> heap_extends h h'"
  unfolding vstack_def Let_def
  by (auto split: option.splits pyval.splits if_splits prod.splits
           intro: heap_extends_refl new_obj_extends new_mat_extends)

lemma matmul_T_extends: "matmul_T K alpha h = (r, h') \<Longrightarrow> heap_extends h h'"
  unfolding matmul_T_def Let_def
  by (auto split: pyval.splits if_splits prod.splits
           intro: heap_extends_refl new_vec_extends new_mat_extends)


lemma predict_row_extends: "predict_row X x row sg h = (r, h') \<Longrightarrow> heap_extends h h'"
  unfolding predict_row_def Let_def
  by (auto split: if_splits xref.splits prod.splits sum.splits
           intro: heap_extends_refl
           dest!: kernel_st_extends kernel_list_extends new_vec_extends
           elim: heap_extends_trans)

lemma predict_loop_extends: "predict_loop rows x K row sg h = (r, h') \<Longrightarrow> heap_extends h h'"
proof (induction rows arbitrary: x K row h)
  case Nil
  then show ?case by (simp add: heap_extends_refl)
next
  case (Cons X rows)
  obtain r1 h1 where 1: "predict_row X x row sg h = (r1, h1)" by fastforce
  note e1 = predict_row_extends[OF 1]
  show ?case
  proof (cases r1)
    case (Inl e)
    then have "h' = h1" using Cons.prems 1 by simp
    then show ?thesis using e1 by simp
  next
    case (Inr xr)
    obtain x1 ro where xr: "xr = (x1, ro)" by fastforce
    show ?thesis
    proof (cases ro)
      case None
      then have "h' = h1" using Cons.prems 1 Inr xr by simp
      then show ?thesis using e1 by simp
    next
      case (Some rw)
      obtain K' h2 where 2: "vstack K rw h1 = (K', h2)" by fastforce
      note e2 = vstack_extends[OF 2]
      have "\<exists>K''. predict_loop rows x1 K'' (Some rw) sg h2 = (r, h')"
        using Cons.prems 1 Inr xr Some 2 by (cases K') auto
      then obtain K'' where "predict_loop rows x1 K'' (Some rw) sg h2 = (r, h')" by blast
      from Cons.IH[OF this] show ?thesis using e1 e2 by (blast intro: heap_extends_trans)
    qed
  qed
qed

lemma predict_extends: "predict x al xi sg h = (r, h') \<Longrightarrow> heap_extends h h'"
proof -
  assume p: "predict x al xi sg h = (r, h')"
  obtain r1 h1 where 1: "predict_loop (mats h xi) x NoneList None sg h = (r1, h1)" by fastforce
  note e1 = predict_loop_extends[OF 1]
  show ?thesis
  proof (cases r1)
    case (Inl e)
    then have "h' = h1" using p 1 by (simp add: predict_def)
    then show ?thesis using e1 by simp
  next
    case (Inr K)
    then have "matmul_T K al h1 = (r, h')" using p 1 by (simp add: predict_def)
    from matmul_T_extends[OF this] show ?thesis using e1 by (blast intro: heap_extends_trans)
  qed
qed

text \<open>
  C9. For every query, whatever \<open>predict\<close> returns or raises, the arrays \<open>alpha\<close>,
  \<open>X_i_vals\<close> and \<open>sigma\<close> of the fit hold after the call what they held before it: the
  call allocates arrays and writes to none that existed.
\<close>
theorem predict_frame:
  assumes "alpha < mtop h" "X_i_vals < mtop h" "sigma < vtop h"
  shows "mats (snd (predict x_test alpha X_i_vals sigma h)) alpha = mats h alpha
         \<and> mats (snd (predict x_test alpha X_i_vals sigma h)) X_i_vals = mats h X_i_vals
         \<and> vecs (snd (predict x_test alpha X_i_vals sigma h)) sigma = vecs h sigma"
proof -
  have "heap_extends h (snd (predict x_test alpha X_i_vals sigma h))"
    by (rule predict_extends[of x_test alpha X_i_vals sigma h "fst (predict x_test alpha X_i_vals sigma h)"]) simp
  then show ?thesis using assms by (simp add: heap_extends_def)
qed

lemma upt5: "[0..<5] = [0, 1, 2, 3, 4]"
  by (simp add: upt_rec)

lemma predict_example:
  "fst (predict (XVec 1) 0 1 0 fit_heap) = Inr (MatRef 3)
   \<and> mats (snd (predict (XVec 1) 0 1 0 fit_heap)) 3
       = [[1 + exp (- (1 / 2)) * 5, 2 + exp (- (1 / 2)) * 6, 3 + exp (- (1 / 2)) * 7, 4 + exp (- (1 / 2)) * 8]]"
  by (simp add: predict_def predict_row_def x_size_def x_vector_def kernel_st_def squared_numerator_def
        new_vec_def new_mat_def np_divide_def vstack_def matmul_T_def ncols_def fit_heap_def upt5
        Let_def lessThan_Suc numeral_2_eq_2 upt_rec)

theorem predict_frame_witness:
  "(0::nat) < mtop fit_heap \<and> (1::nat) < mtop fit_heap \<and> (0::nat) < vtop fit_heap
   \<and> mats (snd (predict (XVec 1) 0 1 0 fit_heap)) 0 = mats fit_heap 0
   \<and> mats (snd (predict (XVec 1) 0 1 0 fit_heap)) 1 = mats fit_heap 1
   \<and> vecs (snd (predict (XVec 1) 0 1 0 fit_heap)) 0 = vecs fit_heap 0"
proof -
  have h: "(0::nat) < mtop fit_heap" "(1::nat) < mtop fit_heap" "(0::nat) < vtop fit_heap"
    by (simp_all add: fit_heap_def)
  show ?thesis using h predict_frame[OF h, of "XVec 1"] by simp
qed

subsection \<open>Training solves the normal equations\<close>

lemma length_mat_of [simp]: "length (mat_of r c f) = r"
  by (simp add: mat_of_def)

lemma nth_mat_of_row: "i < r \<Longrightarrow> mat_of r c f ! i = map (f i) [0..<c]"
  by (simp add: mat_of_def)

lemma nth_mat_of: "i < r \<Longrightarrow> j < c \<Longrightarrow> mat_of r c f ! i ! j = f i j"
  by (simp add: mat_of_def)

lemma ncols_mat_of: "0 < r \<Longrightarrow> ncols (mat_of r c f) = c"
  by (simp add: ncols_def mat_of_def hd_map upt_conv_Cons)

lemma mat_of_cong: "(\<And>i j. i < r \<Longrightarrow> j < c \<Longrightarrow> f i j = g i j) \<Longrightarrow> mat_of r c f = mat_of r c g"
  by (simp add: mat_of_def)

lemma mat_of_shape: "has_shape r c Y \<Longrightarrow> Y = mat_of r c (\<lambda>i j. Y ! i ! j)"
proof -
  assume s: "has_shape r c Y"
  then have l: "length Y = r" and a: "\<And>i. i < r \<Longrightarrow> length (Y ! i) = c"
    by (auto simp: has_shape_def list_all_length)
  show ?thesis
  proof (rule nth_equalityI)
    show "length Y = length (mat_of r c (\<lambda>i j. Y ! i ! j))" using l by simp
  next
    fix i assume "i < length Y"
    then have i: "i < r" using l by simp
    have "Y ! i = map (\<lambda>j. Y ! i ! j) [0..<c]"
      using a[OF i] by (metis map_nth)
    then show "Y ! i = mat_of r c (\<lambda>i j. Y ! i ! j) ! i" using i by (simp add: nth_mat_of_row)
  qed
qed

lemma np_T_mat_of: "0 < r \<Longrightarrow> np_T (Mat (mat_of r c f)) = Mat (mat_of c r (\<lambda>j i. f i j))"
  by (simp add: np_T_def ncols_mat_of) (simp add: mat_of_def)

lemma np_matmul_mat_of:
  assumes "0 < r" "0 < c"
  shows "np_matmul (Mat (mat_of r c f)) (Mat (mat_of c d g))
           = Inr (Mat (mat_of r d (\<lambda>i j. \<Sum>t<c. f i t * g t j)))"
proof -
  have "map (\<lambda>row. map (\<lambda>j. \<Sum>t<c. row ! t * mat_of c d g ! t ! j) [0..<d]) (mat_of r c f)
          = mat_of r d (\<lambda>i j. \<Sum>t<c. f i t * g t j)"
    by (simp add: mat_of_def) 
  then show ?thesis using assms by (simp add: np_matmul_def ncols_mat_of)
qed

lemma np_scale_mat_of: "np_scale k (Mat (mat_of r c f)) = Mat (mat_of r c (\<lambda>i j. k * f i j))"
  by (simp add: np_scale_def mat_of_def)

lemma collect_map_Inr: "collect (map (\<lambda>x. Inr (f x)) xs) = Inr (map f xs)"
  by (induction xs) simp_all

lemma add_rows_same: "length u = length v \<Longrightarrow> add_rows u v = Inr (map2 (+) u v)"
  by (simp add: add_rows_def)

lemma np_add_mat_of:
  "np_add (Mat (mat_of r c f)) (Mat (mat_of r c g)) = Inr (Mat (mat_of r c (\<lambda>i j. f i j + g i j)))"
proof -
  have "map2 add_rows (mat_of r c f) (mat_of r c g)
          = map (\<lambda>i. Inr (map (\<lambda>j. f i j + g i j) [0..<c])) [0..<r]"
    by (rule nth_equalityI) (simp_all add: nth_mat_of_row add_rows_same zip_map_map map_zip_map2 o_def
          zip_same_conv_map)
  then have "collect (map2 add_rows (mat_of r c f) (mat_of r c g))
          = Inr (mat_of r c (\<lambda>i j. f i j + g i j))"
    by (simp add: collect_map_Inr mat_of_def)
  then show ?thesis by (simp add: np_add_def add_mats_def)
qed

lemma kernel_spec:
  assumes "length x = 5" "length x' = 5" "length sigma = 5"
  shows "kernel x x' sigma = Inr (spec_kernel x x' sigma)"
proof -
  obtain p q u v w where s: "sigma = [p, q, u, v, w]" using list5[OF assms(3)] by blast
  have "(\<Sum>i<5. (if i = 2 then sin ((x ! i - x' ! i) / 2) else x ! i - x' ! i)\<^sup>2 / (2 * (sigma ! i)\<^sup>2))
        = sum_list (map2 (/) (map (\<lambda>i. if i \<noteq> 2 then (x ! i - x' ! i)\<^sup>2 else (sin ((x ! i - x' ! i) / 2))\<^sup>2) [0..<5])
                     (map (\<lambda>s. 2 * s) (map (\<lambda>s. s\<^sup>2) sigma)))"
    by (simp add: s upt5 lessThan_nat_numeral lessThan_Suc)
  then show ?thesis
    using assms by (simp add: kernel_def squared_numerator_def np_divide_def spec_kernel_def del: upt_Suc)
qed

lemma kernel_row_spec:
  assumes "length x = 5" "length sigma = 5" "\<forall>b\<in>set B. length b = 5"
  shows "kernel_row x B sigma = Inr (map (\<lambda>b. spec_kernel x b sigma) B)"
  using assms(3)
  by (induction B) (simp_all add: kernel_spec[OF assms(1) _ assms(2)])

lemma generate_K_loop_spec:
  assumes M: "\<forall>m\<in>set M. m < length X" and X: "\<forall>r\<in>set X. length r = 5" and s: "length sigma = 5"
    and xs: "\<forall>x\<in>set xs. length x = 5" and acc: "\<forall>r\<in>set acc. length r = length M"
  shows "generate_K_loop xs X M sigma acc
           = Inr (acc @ map (\<lambda>x. map (\<lambda>j. spec_kernel x (X ! j) sigma) M) xs)"
  using xs acc
proof (induction xs arbitrary: acc)
  case Nil
  then show ?case by simp
next
  case (Cons x xs)
  have t: "take_rows X M = Inr (map (\<lambda>m. X ! m) M)" using M by (simp add: take_rows_def)
  have B: "\<forall>b\<in>set (map (\<lambda>m. X ! m) M). length b = 5" using M X by auto
  have x5: "length x = 5" using Cons.prems(1) by simp
  let ?row = "map (\<lambda>j. spec_kernel x (X ! j) sigma) M"
  have kr: "kernel_row x (map (\<lambda>m. X ! m) M) sigma = Inr ?row"
    using kernel_row_spec[OF x5 s B] by (simp add: o_def)
  have nc: "acc \<noteq> [] \<Longrightarrow> ncols acc = length ?row"
    using Cons.prems(2) by (cases acc) (simp_all add: ncols_def)
  have acc': "(if acc \<noteq> [] \<and> ncols acc = length ?row then acc @ [?row] else [?row]) = acc @ [?row]"
    using nc by auto
  have inv: "\<forall>r\<in>set (acc @ [?row]). length r = length M" using Cons.prems(2) by simp
  have xs5: "\<forall>x\<in>set xs. length x = 5" using Cons.prems(1) by simp
  show ?case
    using Cons.IH[OF xs5 inv] by (simp only: generate_K_loop.simps t kr acc' sum.case) simp
qed

lemma map_rows_mat_of:
  fixes X :: "real list list" and M :: "nat list" and f :: "real list \<Rightarrow> real list \<Rightarrow> real"
  shows "map (\<lambda>x. map (\<lambda>j. f x (X ! j)) M) X
           = mat_of (length X) (length M) (\<lambda>i j. f (X ! i) (X ! (M ! j)))"
proof -
  have a: "map (\<lambda>j. g (X ! j)) M = map (\<lambda>j. g (X ! (M ! j))) [0..<length M]"
    for g :: "real list \<Rightarrow> real"
    by (rule nth_equalityI) simp_all
  have "map (\<lambda>x. map (\<lambda>j. f x (X ! j)) M) X = map (\<lambda>i. map (\<lambda>j. f (X ! i) (X ! j)) M) [0..<length X]"
    by (rule nth_equalityI) simp_all
  then show ?thesis by (simp add: mat_of_def a)
qed

lemma generate_K_spec:
  assumes M: "\<forall>m\<in>set M. m < length X" and X: "\<forall>r\<in>set X. length r = 5" and s: "length sigma = 5"
  shows "generate_K X M sigma =
           (if X = [] then Inl UnboundLocalError
            else if length X = 1 then Inr (Vec (map (\<lambda>j. spec_kernel (X ! 0) (X ! j) sigma) M))
            else Inr (Mat (spec_K_nm X M sigma)))"
proof -
  have l: "generate_K_loop X X M sigma [] = Inr (map (\<lambda>x. map (\<lambda>j. spec_kernel x (X ! j) sigma) M) X)"
    using generate_K_loop_spec[OF M X s X, of "[]"] by simp
  show ?thesis
  proof (cases X)
    case Nil
    then show ?thesis using l by (simp add: generate_K_def)
  next
    case (Cons x rest)
    show ?thesis
    proof (cases rest)
      case Nil
      then show ?thesis using l Cons by (simp add: generate_K_def)
    next
      case (Cons y rest')
      have two: "X \<noteq> []" "length X \<noteq> 1" using \<open>X = x # rest\<close> Cons by simp_all
      have "generate_K X M sigma = Inr (Mat (map (\<lambda>x. map (\<lambda>j. spec_kernel x (X ! j) sigma) M) X))"
        unfolding generate_K_def l using \<open>X = x # rest\<close> Cons by simp
      then show ?thesis
        using two map_rows_mat_of[of "\<lambda>x y. spec_kernel x y sigma" X M] by (simp add: spec_K_nm_def)
    qed
  qed
qed

lemma spec_lhs_code:
  "mat_of (length M) (length M)
     (\<lambda>a b. (\<Sum>t<length X. spec_kernel (X ! t) (X ! (M ! a)) sigma * spec_kernel (X ! t) (X ! (M ! b)) sigma)
            + lam * spec_kernel (X ! (M ! a)) (X ! (M ! b)) sigma)
   = spec_lhs X M sigma lam"
  unfolding spec_lhs_def spec_K_nm_def spec_K_mm_def
  by (rule mat_of_cong) (simp add: nth_mat_of)

lemma spec_rhs_code:
  "mat_of (length M) 4 (\<lambda>a c. \<Sum>t<length X. spec_kernel (X ! t) (X ! (M ! a)) sigma * Y ! t ! c)
   = spec_rhs X Y M sigma"
  unfolding spec_rhs_def spec_K_nm_def
  by (rule mat_of_cong) (simp add: nth_mat_of)

lemma train_alpha_code:
  assumes X5: "\<forall>r\<in>set X. length r = 5" and Y: "has_shape (length X) 4 Y" and s: "length sigma = 5"
    and M: "\<forall>m\<in>set M. m < length X" and N: "2 \<le> length X" and m: "M \<noteq> []"
  shows "train_alpha solver X Y M sigma lam
           = Inr (Mat (solver (spec_lhs X M sigma lam) (spec_rhs X Y M sigma)), map (\<lambda>m. X ! m) M)"
proof -
  let ?N = "length X" and ?m = "length M"
  let ?kf = "\<lambda>i j. spec_kernel (X ! i) (X ! (M ! j)) sigma"
  let ?Xi = "map (\<lambda>m. X ! m) M"
  have Npos: "0 < ?N" using N by linarith
  have mpos: "0 < ?m" using m by simp
  have Xne: "X \<noteq> []" "length X \<noteq> 1" using N by auto
  have t: "take_rows X M = Inr ?Xi" using M by (simp add: take_rows_def)
  have K: "generate_K X M sigma = Inr (Mat (mat_of ?N ?m ?kf))"
    using generate_K_spec[OF M X5 s] Xne by (simp add: spec_K_nm_def)
  have Xi5: "\<forall>r\<in>set ?Xi. length r = 5" using M X5 by auto
  have Mi: "\<forall>j\<in>set [0..<?m]. j < length ?Xi" by simp
  note Kmm = generate_K_spec[OF Mi Xi5 s]
  have T: "np_T (Mat (mat_of ?N ?m ?kf)) = Mat (mat_of ?m ?N (\<lambda>a i. ?kf i a))"
    by (rule np_T_mat_of[OF Npos])
  have G: "np_matmul (Mat (mat_of ?m ?N (\<lambda>a i. ?kf i a))) (Mat (mat_of ?N ?m ?kf))
             = Inr (Mat (mat_of ?m ?m (\<lambda>a b. \<Sum>t<?N. ?kf t a * ?kf t b)))"
    by (rule np_matmul_mat_of[OF mpos Npos])
  have Ym: "Y = mat_of ?N 4 (\<lambda>i c. Y ! i ! c)" by (rule mat_of_shape[OF Y])
  have "np_matmul (Mat (mat_of ?m ?N (\<lambda>a i. ?kf i a))) (Mat (mat_of ?N 4 (\<lambda>i c. Y ! i ! c)))
             = Inr (Mat (mat_of ?m 4 (\<lambda>a c. \<Sum>t<?N. ?kf t a * Y ! t ! c)))"
    by (rule np_matmul_mat_of[OF mpos Npos])
  then have B: "np_matmul (Mat (mat_of ?m ?N (\<lambda>a i. ?kf i a))) (Mat Y) = Inr (Mat (spec_rhs X Y M sigma))"
    using Ym by (simp add: spec_rhs_code)
  have A: "\<exists>KMM. generate_K ?Xi [0..<?m] sigma = Inr KMM
             \<and> np_add (Mat (mat_of ?m ?m (\<lambda>a b. \<Sum>t<?N. ?kf t a * ?kf t b))) (np_scale lam KMM)
                 = Inr (Mat (spec_lhs X M sigma lam))"
  proof (cases "?m = 1")
    case True
    then have k: "generate_K ?Xi [0..<?m] sigma = Inr (Vec [spec_kernel (X ! (M ! 0)) (X ! (M ! 0)) sigma])"
      using Kmm m by simp
    have l: "spec_lhs X M sigma lam
             = [[(\<Sum>t<?N. ?kf t 0 * ?kf t 0) + lam * spec_kernel (X ! (M ! 0)) (X ! (M ! 0)) sigma]]"
      using True by (simp add: spec_lhs_code[symmetric] mat_of_def)
    have "np_add (Mat (mat_of ?m ?m (\<lambda>a b. \<Sum>t<?N. ?kf t a * ?kf t b)))
                 (np_scale lam (Vec [spec_kernel (X ! (M ! 0)) (X ! (M ! 0)) sigma]))
            = Inr (Mat (spec_lhs X M sigma lam))"
      unfolding l using True by (simp add: np_add_def np_scale_def add_mats_def add_rows_def mat_of_def)
    then show ?thesis using k by blast
  next
    case False
    then have two: "?Xi \<noteq> []" "length ?Xi \<noteq> 1" using m by simp_all
    have "spec_K_nm ?Xi [0..<?m] sigma = mat_of ?m ?m (\<lambda>a b. spec_kernel (X ! (M ! a)) (X ! (M ! b)) sigma)"
      unfolding spec_K_nm_def by (simp, rule mat_of_cong) simp
    then have k: "generate_K ?Xi [0..<?m] sigma
                    = Inr (Mat (mat_of ?m ?m (\<lambda>a b. spec_kernel (X ! (M ! a)) (X ! (M ! b)) sigma)))"
      using Kmm two by simp
    have "np_add (Mat (mat_of ?m ?m (\<lambda>a b. \<Sum>t<?N. ?kf t a * ?kf t b)))
                 (np_scale lam (Mat (mat_of ?m ?m (\<lambda>a b. spec_kernel (X ! (M ! a)) (X ! (M ! b)) sigma))))
            = Inr (Mat (spec_lhs X M sigma lam))"
      by (simp only: np_scale_mat_of np_add_mat_of spec_lhs_code)
    then show ?thesis using k by blast
  qed
  then obtain KMM where kmm: "generate_K ?Xi [0..<?m] sigma = Inr KMM"
    and a: "np_add (Mat (mat_of ?m ?m (\<lambda>a b. \<Sum>t<?N. ?kf t a * ?kf t b))) (np_scale lam KMM)
                 = Inr (Mat (spec_lhs X M sigma lam))" by blast
  have L: "lstsq solver (Mat (spec_lhs X M sigma lam)) (Mat (spec_rhs X Y M sigma))
             = Inr (Mat (solver (spec_lhs X M sigma lam) (spec_rhs X Y M sigma)))"
    by (simp add: lstsq_def spec_lhs_def spec_rhs_def)
  show ?thesis
    unfolding train_alpha_def by (simp only: t K kmm T G a B L sum.case)
qed

lemma generate_K_no_rows: "generate_K [] M sigma = Inl UnboundLocalError"
  by (simp add: generate_K_def)

lemma train_alpha_small:
  assumes X5: "\<forall>r\<in>set X. length r = 5" and Y: "has_shape (length X) 4 Y" and s: "length sigma = 5"
    and M: "\<forall>m\<in>set M. m < length X" and small: "length X < 2 \<or> M = []"
  shows "\<exists>e. train_alpha solver X Y M sigma lam = Inl e"
proof (cases "M = []")
  case True
  have t: "take_rows X [] = Inr []" by (simp add: take_rows_def)
  show ?thesis
    unfolding True
    by (cases "generate_K X [] sigma")
       (simp_all add: train_alpha_def t generate_K_no_rows)
next
  case False
  then have "M \<noteq> []" by simp
  then obtain j where "j \<in> set M" by (cases M) auto
  then have "0 < length X" using M by fastforce
  then have N1: "length X = 1" using small False by linarith
  then obtain x where X: "X = [x]" by (cases X) auto
  let ?Xi = "map (\<lambda>m. X ! m) M"
  let ?v = "map (\<lambda>j. spec_kernel (X ! 0) (X ! j) sigma) M"
  have t: "take_rows X M = Inr ?Xi" using M by (simp add: take_rows_def)
  have K: "generate_K X M sigma = Inr (Vec ?v)"
    using generate_K_spec[OF M X5 s] N1 by auto
  have Xi5: "\<forall>r\<in>set ?Xi. length r = 5" using M X5 by auto
  have Mi: "\<forall>j\<in>set [0..<length M]. j < length ?Xi" by simp
  note Kmm = generate_K_spec[OF Mi Xi5 s]
  have G: "np_matmul (np_T (Vec ?v)) (Vec ?v) = Inr (Scalar (\<Sum>t<length M. ?v ! t * ?v ! t))"
    by (simp add: np_T_def np_matmul_def)
  have Ylen: "length Y = 1" using Y N1 by (simp add: has_shape_def)
  show ?thesis
  proof (cases "length M = 1")
    case True
    then obtain k where kmm: "generate_K ?Xi [0..<length M] sigma = Inr (Vec [k])"
      using Kmm False by simp
    have a: "\<exists>w. np_add (Scalar (\<Sum>t<length M. ?v ! t * ?v ! t)) (np_scale lam (Vec [k])) = Inr (Vec w)"
      by (simp add: np_add_def np_scale_def)
    then obtain w where a': "np_add (Scalar (\<Sum>t<length M. ?v ! t * ?v ! t)) (np_scale lam (Vec [k])) = Inr (Vec w)"
      by blast
    obtain b where b: "np_matmul (np_T (Vec ?v)) (Mat Y) = Inr b"
      using True Ylen by (simp add: np_T_def np_matmul_def)
    have "lstsq solver (Vec w) b = Inl LinAlgError" by (simp add: lstsq_def)
    then show ?thesis
      unfolding train_alpha_def by (simp only: t K kmm G a' b sum.case) simp
  next
    case ne: False
    then have two: "?Xi \<noteq> []" "length ?Xi \<noteq> 1" using False by simp_all
    obtain KMM where kmm: "generate_K ?Xi [0..<length M] sigma = Inr KMM"
      using Kmm two by simp
    have b: "np_matmul (np_T (Vec ?v)) (Mat Y) = Inl ValueError"
      using ne Ylen by (simp add: np_T_def np_matmul_def)
    show ?thesis
      unfolding train_alpha_def
      by (cases "np_add (Scalar (\<Sum>t<length M. ?v ! t * ?v ! t)) (np_scale lam KMM)")
         (simp_all only: t K kmm G b sum.case, simp_all)
  qed
qed

text \<open>
  C7. For a training set of rows of length 5 with targets of length 4, a \<open>sigma\<close> of five
  nonzero components, any regularisation and any basis indices drawn within the training
  set: whenever \<open>train_alpha\<close> returns, the basis points are the rows drawn and \<open>alpha\<close> is
  a least-squares solution of the normal equations \<open>(K_nm^T K_nm + lam K_mm) alpha =
  K_nm^T Y_train\<close> of the specification, given that numpy's solver returns a least-squares
  solution of the system it is handed; and \<open>train_alpha\<close> returns whenever there are at
  least two training points and one basis index. (With one training point or no basis
  index it raises, by \<open>train_alpha_small\<close>.)
\<close>
theorem train_alpha_least_squares:
  assumes "\<forall>r\<in>set X. length r = 5" and "has_shape (length X) 4 Y"
    and "length sigma = 5" and "0 \<notin> set sigma"
    and "\<forall>m\<in>set M. m < length X"
    and "least_squares_solution (spec_lhs X M sigma lam) (spec_rhs X Y M sigma)
           (solver (spec_lhs X M sigma lam) (spec_rhs X Y M sigma))"
  shows "(\<forall>alpha Xi. train_alpha solver X Y M sigma lam = Inr (alpha, Xi) \<longrightarrow>
            Xi = map (\<lambda>m. X ! m) M
            \<and> (\<exists>x. alpha = Mat x
                   \<and> least_squares_solution (spec_lhs X M sigma lam) (spec_rhs X Y M sigma) x))
         \<and> (2 \<le> length X \<and> M \<noteq> [] \<longrightarrow> (\<exists>alpha Xi. train_alpha solver X Y M sigma lam = Inr (alpha, Xi)))"
proof (cases "2 \<le> length X \<and> M \<noteq> []")
  case True
  then have "train_alpha solver X Y M sigma lam
           = Inr (Mat (solver (spec_lhs X M sigma lam) (spec_rhs X Y M sigma)), map (\<lambda>m. X ! m) M)"
    using train_alpha_code[OF assms(1,2,3,5)] by blast
  then show ?thesis using assms(6) by simp
next
  case False
  then have "length X < 2 \<or> M = []" by linarith
  then obtain e where "train_alpha solver X Y M sigma lam = Inl e"
    using train_alpha_small[OF assms(1,2,3,5)] by blast
  then show ?thesis using False by auto
qed

lemma residual_nonneg: "0 \<le> residual A B x"
  unfolding residual_def by (intro sum_nonneg) simp

theorem train_alpha_least_squares_witness:
  "train_alpha (\<lambda>A B. [[4 / 3, 2, 8 / 3, 10 / 3]])
      [[0, 0, 0, 0, 0], [0, 0, 0, 0, 0]] [[1, 2, 3, 4], [3, 4, 5, 6]] [0] [1, 1, 1, 1, 1] 1
     = Inr (Mat [[4 / 3, 2, 8 / 3, 10 / 3]], [[0, 0, 0, 0, 0]])
   \<and> least_squares_solution
         (spec_lhs [[0, 0, 0, 0, 0], [0, 0, 0, 0, 0]] [0] [1, 1, 1, 1, 1] 1)
         (spec_rhs [[0, 0, 0, 0, 0], [0, 0, 0, 0, 0]] [[1, 2, 3, 4], [3, 4, 5, 6]] [0] [1, 1, 1, 1, 1])
         [[4 / 3, 2, 8 / 3, 10 / 3]]"
proof -
  let ?X = "[[0, 0, 0, 0, 0], [0, 0, 0, 0, 0 :: real]]"
  let ?Y = "[[1, 2, 3, 4], [3, 4, 5, 6 :: real]]"
  let ?s = "[1, 1, 1, 1, 1 :: real]"
  let ?solver = "\<lambda>A B :: real list list. [[4 / 3, 2, 8 / 3, 10 / 3 :: real]]"
  have k: "spec_kernel [0, 0, 0, 0, 0] [0, 0, 0, 0, 0] ?s = 1"
    by (simp add: spec_kernel_def lessThan_nat_numeral lessThan_Suc)
  have A: "spec_lhs ?X [0] ?s 1 = [[3]]"
    by (simp add: spec_lhs_def spec_K_nm_def spec_K_mm_def mat_of_def k lessThan_Suc numeral_2_eq_2)
  have B: "spec_rhs ?X ?Y [0] ?s = [[4, 6, 8, 10]]"
    by (simp add: spec_rhs_def spec_K_nm_def mat_of_def k lessThan_Suc numeral_2_eq_2 upt_rec)
  have r0: "residual [[3]] [[4, 6, 8, 10]] [[4 / 3, 2, 8 / 3, 10 / 3]] = 0"
    by (simp add: residual_def ncols_def lessThan_nat_numeral lessThan_Suc)
  have lsq: "least_squares_solution (spec_lhs ?X [0] ?s 1) (spec_rhs ?X ?Y [0] ?s)
               (?solver (spec_lhs ?X [0] ?s 1) (spec_rhs ?X ?Y [0] ?s))"
    unfolding A B least_squares_solution_def
    by (simp add: r0 residual_nonneg has_shape_def ncols_def)
  have h1: "\<forall>r\<in>set ?X. length r = 5" by simp
  have h2: "has_shape (length ?X) 4 ?Y" by (simp add: has_shape_def)
  have h3: "length ?s = 5" by simp
  have h4: "0 \<notin> set ?s" by simp
  have h5: "\<forall>m\<in>set [0::nat]. m < length ?X" by simp
  note th = train_alpha_least_squares[OF h1 h2 h3 h4 h5 lsq]
  from th obtain alpha Xi where r: "train_alpha ?solver ?X ?Y [0] ?s 1 = Inr (alpha, Xi)"
    by auto
  with th have "Xi = map (\<lambda>m. ?X ! m) [0]"
    and "\<exists>x. alpha = Mat x \<and> least_squares_solution (spec_lhs ?X [0] ?s 1) (spec_rhs ?X ?Y [0] ?s) x"
    by blast+
  then show ?thesis using r lsq train_alpha_code[OF h1 h2 h3 h5, of ?solver 1] by simp
qed

end
